theory Spec2Isabelle
  imports Main "HOL-Library.Sublist"
begin

section \<open>JavaScript values as the handlers of server.js see them\<close>

text \<open>
  Request bodies and upstream answers are JSON documents; property reads that find
  nothing give \<open>undefined\<close>. An object is given by its own properties (each key once).
  Numbers are the integer-valued ones: the handlers never calculate with request data,
  they only test a number for truthiness, compare a loop index with it and print it.
  Strings are sequences of characters; text outside ASCII is held in UTF-8. What
  JavaScript computes on the UTF-16 form of a text (\<open>slice\<close>) or on a number beyond the
  exact integers (printing) is not computed here but taken from the environment.
\<close>

datatype jsval =
    JUndefined
  | JNull
  | JBool bool
  | JNum int
  | JStr string
  | JArr "jsval list"
  | JObj "(string \<times> jsval) list"

text \<open>What a handler's \<open>catch\<close> block can receive.\<close>

datatype failure =
    TypeError
  | InvalidJson
  | InvalidUrl
  | FetchFailed
  | ChatFailed nat string
  | TtsFailed nat string
  | FsError

fun truthy :: "jsval \<Rightarrow> bool" where
  "truthy JUndefined = False"
| "truthy JNull = False"
| "truthy (JBool b) = b"
| "truthy (JNum n) = (n \<noteq> 0)"
| "truthy (JStr s) = (s \<noteq> [])"
| "truthy (JArr xs) = True"
| "truthy (JObj kvs) = True"

definition nullish :: "jsval \<Rightarrow> bool" where
  "nullish v = (v = JUndefined \<or> v = JNull)"

text \<open>
  \<open>own_prop v k\<close> is the read \<open>v.k\<close> on a value that is neither \<open>undefined\<close> nor
  \<open>null\<close>, for the property names the handlers read by name (specs, make, model, files,
  length, choices, message, content, variants, voiceover, style, beats, hashtags): none
  of them is inherited from a prototype except \<open>length\<close> of arrays and strings.
\<close>

fun own_prop :: "jsval \<Rightarrow> string \<Rightarrow> jsval" where
  "own_prop (JObj kvs) k = (case map_of kvs k of None \<Rightarrow> JUndefined | Some v \<Rightarrow> v)"
| "own_prop (JArr xs) k = (if k = ''length'' then JNum (int (length xs)) else JUndefined)"
| "own_prop (JStr s) k = (if k = ''length'' then JNum (int (length s)) else JUndefined)"
| "own_prop v k = JUndefined"

text \<open>\<open>v.k\<close> throws a TypeError on \<open>undefined\<close> and \<open>null\<close>; \<open>v?.k\<close> gives \<open>undefined\<close> there.\<close>

definition get_prop :: "jsval \<Rightarrow> string \<Rightarrow> failure + jsval" where
  "get_prop v k = (if nullish v then Inl TypeError else Inr (own_prop v k))"

definition opt_prop :: "jsval \<Rightarrow> string \<Rightarrow> jsval" where
  "opt_prop v k = (if nullish v then JUndefined else own_prop v k)"

subsection \<open>Decimal numerals\<close>

definition digit :: "nat \<Rightarrow> char" where
  "digit d = ''0123456789'' ! d"

fun dec :: "nat \<Rightarrow> string" where
  "dec n = (if n < 10 then [digit n] else dec (n div 10) @ [digit (n mod 10)])"

declare dec.simps [simp del]

definition int_str :: "int \<Rightarrow> string" where
  "int_str n = (if n < 0 then CHR ''-'' # dec (nat (- n)) else dec (nat n))"

text \<open>The read \<open>v[i]\<close> with a loop index \<open>i\<close>.\<close>

fun js_index :: "jsval \<Rightarrow> nat \<Rightarrow> failure + jsval" where
  "js_index JUndefined i = Inl TypeError"
| "js_index JNull i = Inl TypeError"
| "js_index (JArr xs) i = Inr (if i < length xs then xs ! i else JUndefined)"
| "js_index (JStr s) i = Inr (if i < length s then JStr [s ! i] else JUndefined)"
| "js_index (JObj kvs) i = Inr (own_prop (JObj kvs) (dec i))"
| "js_index v i = Inr JUndefined"

subsection \<open>String conversion\<close>

fun join_with :: "string \<Rightarrow> string list \<Rightarrow> string" where
  "join_with sep [] = []"
| "join_with sep [s] = s"
| "join_with sep (s # t # ss) = s @ sep @ join_with sep (t # ss)"

subsection \<open>String.prototype.trim\<close>

text \<open>
  The white space and line terminators of ECMAScript, in UTF-8: TAB, LF, VT, FF, CR, SP,
  U+00A0, U+1680, U+2000 to U+200A, U+2028, U+2029, U+202F, U+205F, U+3000, U+FEFF.
\<close>

definition ws_seqs :: "string list" where
  "ws_seqs =
    [[CHR 0x09], [CHR 0x0A], [CHR 0x0B], [CHR 0x0C], [CHR 0x0D], [CHR 0x20],
     [CHR 0xC2, CHR 0xA0], [CHR 0xE1, CHR 0x9A, CHR 0x80],
     [CHR 0xE2, CHR 0x80, CHR 0x80], [CHR 0xE2, CHR 0x80, CHR 0x81],
     [CHR 0xE2, CHR 0x80, CHR 0x82], [CHR 0xE2, CHR 0x80, CHR 0x83],
     [CHR 0xE2, CHR 0x80, CHR 0x84], [CHR 0xE2, CHR 0x80, CHR 0x85],
     [CHR 0xE2, CHR 0x80, CHR 0x86], [CHR 0xE2, CHR 0x80, CHR 0x87],
     [CHR 0xE2, CHR 0x80, CHR 0x88], [CHR 0xE2, CHR 0x80, CHR 0x89],
     [CHR 0xE2, CHR 0x80, CHR 0x8A], [CHR 0xE2, CHR 0x80, CHR 0xA8],
     [CHR 0xE2, CHR 0x80, CHR 0xA9], [CHR 0xE2, CHR 0x80, CHR 0xAF],
     [CHR 0xE2, CHR 0x81, CHR 0x9F], [CHR 0xE3, CHR 0x80, CHR 0x80],
     [CHR 0xEF, CHR 0xBB, CHR 0xBF]]"

text \<open>The length of the white-space sequence (one of \<open>qs\<close>) that \<open>s\<close> starts with, or 0.\<close>

definition ws_head :: "string list \<Rightarrow> string \<Rightarrow> nat" where
  "ws_head qs s = (case find (\<lambda>q. q \<noteq> [] \<and> prefix q s) qs of None \<Rightarrow> 0 | Some q \<Rightarrow> length q)"

function strip_ws :: "string list \<Rightarrow> string \<Rightarrow> string" where
  "strip_ws qs s = (if ws_head qs s = 0 then s else strip_ws qs (drop (ws_head qs s) s))"
  by pat_completeness auto
termination
proof (relation "measure (\<lambda>(qs, s). length s)")
  show "wf (measure (\<lambda>(qs, s). length s))" by simp
next
  fix qs :: "string list" and s :: string
  assume "ws_head qs s \<noteq> 0"
  moreover have "ws_head qs s \<le> length s"
    by (auto simp: ws_head_def find_Some_iff prefix_def split: option.splits)
  ultimately show "((qs, drop (ws_head qs s) s), (qs, s)) \<in> measure (\<lambda>(qs, s). length s)"
    by simp
qed

declare strip_ws.simps [simp del]

definition trim :: "string \<Rightarrow> string" where
  "trim s = rev (strip_ws (map rev ws_seqs) (rev (strip_ws ws_seqs s)))"

section \<open>Paths: path.join and path.basename of Node (POSIX)\<close>

fun split_slash :: "string \<Rightarrow> string list" where
  "split_slash [] = [[]]"
| "split_slash (c # cs) =
     (if c = CHR ''/'' then [] # split_slash cs
      else (case split_slash cs of [] \<Rightarrow> [[c]] | w # ws \<Rightarrow> (c # w) # ws))"

text \<open>
  normalizeString: empty and \<open>.\<close> segments are dropped, \<open>..\<close> removes the segment before
  it; with nothing to remove it is kept only when the path is relative (\<open>allow\<close>).
  The third argument is the result so far, last segment first.
\<close>

fun norm_segs :: "bool \<Rightarrow> string list \<Rightarrow> string list \<Rightarrow> string list" where
  "norm_segs allow [] st = rev st"
| "norm_segs allow (s # ss) st =
     (if s = [] \<or> s = ''.'' then norm_segs allow ss st
      else if s = ''..'' then
        (case st of
           [] \<Rightarrow> norm_segs allow ss (if allow then [''..''] else [])
         | t # ts \<Rightarrow>
             if t \<noteq> ''..'' then norm_segs allow ss ts
             else norm_segs allow ss (if allow then ''..'' # st else st))
      else norm_segs allow ss (s # st))"

definition normalize :: "string \<Rightarrow> string" where
  "normalize p =
     (if p = [] then ''.''
      else
        let isAbsolute = (hd p = CHR ''/'');
            trailingSeparator = (last p = CHR ''/'');
            res = join_with ''/'' (norm_segs (\<not> isAbsolute) (split_slash p) [])
        in if res = [] then (if isAbsolute then ''/'' else if trailingSeparator then ''./'' else ''.'')
           else (if isAbsolute then ''/'' else []) @ res @ (if trailingSeparator then ''/'' else []))"

definition path_join :: "string list \<Rightarrow> string" where
  "path_join args =
     (let joined = join_with ''/'' (filter (\<lambda>a. a \<noteq> []) args)
      in if joined = [] then ''.'' else normalize joined)"

definition basename :: "string \<Rightarrow> string" where
  "basename p =
     rev (takeWhile (\<lambda>c. c \<noteq> CHR ''/'') (dropWhile (\<lambda>c. c = CHR ''/'') (rev p)))"


section \<open>Configuration, the outside world and the file system\<close>

text \<open>
  The constants of server.js read from the process environment at start-up;
  \<open>server_dir\<close> is \<open>__dirname\<close>, the directory that holds server.js.
\<close>

record config =
  APP_KEY :: string
  BASE_URL :: string
  server_dir :: string

text \<open>
  An answer of the upstream service to \<open>fetch\<close>: \<open>r.ok\<close>, \<open>r.status\<close> and the body
  (\<open>r.text()\<close>, \<open>r.arrayBuffer()\<close>); \<open>r.json()\<close> is \<open>JSON.parse\<close> of the body.
\<close>

record reply =
  ok :: bool
  status :: nat
  payload :: string

text \<open>
  Everything the handlers call and server.js does not define:
  \<^item> \<open>chat specs\<close>: the answer to the chat-completion request built from \<open>specs\<close>
    (\<open>None\<close>: \<open>fetch\<close> rejects);
  \<^item> \<open>json_parse v\<close>: \<open>JSON.parse(v)\<close> (\<open>None\<close>: it throws);
  \<^item> \<open>tts k t\<close>: the answer to the speech request with input \<open>t\<close>, the \<open>k\<close>-th
    (from 0) of one generate call;
  \<^item> \<open>uuidv4\<close>: the identifier \<open>uuidv4()\<close> returns to the call;
  \<^item> \<open>mkdir_fails\<close>, \<open>write_fails\<close>: whether \<open>fs.mkdirSync\<close>, \<open>fs.writeFileSync\<close> throw
    for a path;
  \<^item> \<open>url_pathname u\<close>: \<open>new URL(u).pathname\<close> (\<open>None\<close>: the constructor throws);
  \<^item> \<open>str_to_num s\<close>: the number a string converts to (\<open>None\<close>: NaN);
  \<^item> \<open>num_str n\<close>: the text JavaScript prints for a number beyond the exact integers;
  \<^item> \<open>str_slice06 s\<close>: \<open>s.slice(0, 6)\<close> of a string, its first six UTF-16 code units;
  \<^item> \<open>static_serve p\<close>: what \<open>express.static\<close> answers to a GET or HEAD of a path
    under its mount (\<open>None\<close>: it passes the request on).
\<close>

record env =
  chat :: "jsval \<Rightarrow> reply option"
  json_parse :: "jsval \<Rightarrow> jsval option"
  tts :: "nat \<Rightarrow> string \<Rightarrow> reply option"
  uuidv4 :: string
  mkdir_fails :: "string \<Rightarrow> bool"
  write_fails :: "string \<Rightarrow> bool"
  url_pathname :: "jsval \<Rightarrow> string option"
  str_to_num :: "string \<Rightarrow> int option"
  num_str :: "int \<Rightarrow> string"
  str_slice06 :: "string \<Rightarrow> string"
  static_serve :: "string \<Rightarrow> string option"

datatype call = ChatCall jsval | TtsCall string

text \<open>
  The state a request can change: the directories and files on disk (keyed by their
  absolute normalized path, no trailing slash) and the requests sent upstream so far.
\<close>

record world =
  fs_dirs :: "string set"
  fs_files :: "string \<rightharpoonup> string"
  upstream_calls :: "call list"

text \<open>fs.existsSync: a path with a trailing slash names a directory only.\<close>

definition existsSync :: "world \<Rightarrow> string \<Rightarrow> bool" where
  "existsSync w p =
     (if p \<noteq> ''/'' \<and> p \<noteq> [] \<and> last p = CHR ''/'' then butlast p \<in> fs_dirs w
      else p \<in> fs_dirs w \<or> p \<in> dom (fs_files w))"

text \<open>The directory \<open>p\<close> and the directories above it, as \<open>mkdirSync\<close> with \<open>recursive\<close> creates them.\<close>

definition ancestors :: "string \<Rightarrow> string list" where
  "ancestors p =
     (let segs = filter (\<lambda>s. s \<noteq> []) (split_slash p)
      in map (\<lambda>k. CHR ''/'' # join_with ''/'' (take k segs)) [1..<Suc (length segs)])"

definition ensureDir :: "env \<Rightarrow> string \<Rightarrow> world \<Rightarrow> failure + world" where
  "ensureDir e p w =
     (if existsSync w p then Inr w
      else if mkdir_fails e p then Inl FsError
      else Inr (w\<lparr>fs_dirs := fs_dirs w \<union> set (ancestors p)\<rparr>))"

section \<open>ttsToMp3\<close>

text \<open>
  The speech request for \<open>txt\<close> and the write of its answer to \<open>outPath\<close>. The extra
  argument \<open>k\<close> counts the speech requests of the generate call (it is the loop index),
  so that the service may answer each of them differently. A write that throws is taken
  to leave no file; what a partly written file holds is not followed.
\<close>

definition ttsToMp3 :: "env \<Rightarrow> nat \<Rightarrow> string \<Rightarrow> string \<Rightarrow> world \<Rightarrow> (failure + unit) \<times> world" where
  "ttsToMp3 e k txt outPath w =
     (let w1 = w\<lparr>upstream_calls := upstream_calls w @ [TtsCall txt]\<rparr>
      in (case tts e k txt of
            None \<Rightarrow> (Inl FetchFailed, w1)
          | Some r \<Rightarrow>
              (if \<not> ok r then (Inl (TtsFailed (status r) (payload r)), w1)
               else if write_fails e outPath then (Inl FsError, w1)
               else (Inr (), w1\<lparr>fs_files := (fs_files w1)(outPath \<mapsto> payload r)\<rparr>))))"

section \<open>POST /generate\<close>

datatype response =
    Json nat jsval
  | Failed string failure
  | ZipStream "(string \<times> string) list"
  | Preflight
  | ParserError nat
  | StaticFile string
  | NoBody nat
  | NotFound

text \<open>
  \<open>Json st b\<close> is \<open>res.status(st).json(b)\<close>; \<open>Failed l e\<close> is the answer of a \<open>catch\<close>
  block, status 500 with body \<open>{error: l, detail: String(e.message)}\<close>;
  \<open>ZipStream es\<close> is status 200 with the archive of the entries \<open>es\<close>, each the file
  read and the name it gets, in the order of the \<open>archive.file\<close> calls.
  The others are answers of the middleware: the 204 of \<open>cors()\<close> to OPTIONS, the error
  of \<open>express.json()\<close> with its status, a file sent by \<open>express.static\<close>, the answer to a
  HEAD request and the 404 of Express.
\<close>

record entry =
  label :: string
  url :: string
  script :: string
  beats :: jsval
  hashtags :: jsval

definition entry_json :: "entry \<Rightarrow> jsval" where
  "entry_json x =
     JObj [(''label'', JStr (label x)), (''url'', JStr (url x)), (''script'', JStr (script x)),
           (''beats'', beats x), (''hashtags'', hashtags x)]"

text \<open>Lines 75 to 87: the chat request and the reading of \<open>variants\<close> from its answer.\<close>

definition chat_variants :: "env \<Rightarrow> jsval \<Rightarrow> failure + jsval" where
  "chat_variants e specs =
     (case chat e specs of
        None \<Rightarrow> Inl FetchFailed
      | Some cr \<Rightarrow>
          if \<not> ok cr then Inl (ChatFailed (status cr) (payload cr))
          else
            (case json_parse e (JStr (payload cr)) of
               None \<Rightarrow> Inl InvalidJson
             | Some cj \<Rightarrow>
                 (case get_prop cj ''choices'' of
                    Inl x \<Rightarrow> Inl x
                  | Inr choices \<Rightarrow>
                      (case js_index choices 0 of
                         Inl x \<Rightarrow> Inl x
                       | Inr choice \<Rightarrow>
                           (case get_prop choice ''message'' of
                              Inl x \<Rightarrow> Inl x
                            | Inr message \<Rightarrow>
                                (case get_prop message ''content'' of
                                   Inl x \<Rightarrow> Inl x
                                 | Inr content \<Rightarrow>
                                     (case json_parse e content of
                                        None \<Rightarrow> Inl InvalidJson
                                      | Some doc \<Rightarrow> get_prop doc ''variants'')))))))"

text \<open>
  The conversion a template literal applies to an interpolated value. An integer below
  \<open>2^53\<close> in size prints in decimal; how a larger number prints (rounded to a double,
  in exponent form from \<open>10^21\<close>) is the environment's \<open>num_str\<close>.
\<close>

fun to_string :: "env \<Rightarrow> jsval \<Rightarrow> string" where
  "to_string e JUndefined = ''undefined''"
| "to_string e JNull = ''null''"
| "to_string e (JBool b) = (if b then ''true'' else ''false'')"
| "to_string e (JNum n) = (if abs n < 2 ^ 53 then int_str n else num_str e n)"
| "to_string e (JStr s) = s"
| "to_string e (JArr xs) = join_with '','' (map (\<lambda>x. if nullish x then [] else to_string e x) xs)"
| "to_string e (JObj kvs) = ''[object Object]''"

text \<open>The number a value converts to in the comparison \<open>i < variants.length\<close>.\<close>

fun to_number :: "env \<Rightarrow> jsval \<Rightarrow> int option" where
  "to_number e JUndefined = None"
| "to_number e JNull = Some 0"
| "to_number e (JBool b) = Some (if b then 1 else 0)"
| "to_number e (JNum n) = Some n"
| "to_number e v = str_to_num e (to_string e v)"

text \<open>
  The values \<open>variants[0], variants[1], ...\<close> the loop of lines 94 to 106 visits, while
  \<open>i < variants.length\<close>; reading \<open>length\<close> of \<open>undefined\<close> or \<open>null\<close> throws.
\<close>

fun loop_items :: "env \<Rightarrow> jsval \<Rightarrow> failure + jsval list" where
  "loop_items e JUndefined = Inl TypeError"
| "loop_items e JNull = Inl TypeError"
| "loop_items e (JArr xs) = Inr xs"
| "loop_items e (JStr s) = Inr (map (\<lambda>c. JStr [c]) s)"
| "loop_items e (JObj kvs) =
     Inr (map (\<lambda>i. own_prop (JObj kvs) (dec i))
            [0..<(case to_number e (own_prop (JObj kvs) ''length'') of None \<Rightarrow> 0 | Some n \<Rightarrow> nat n)])"
| "loop_items e v = Inr []"

text \<open>\<open>v.voiceover.trim()\<close>: only a string has the method.\<close>

definition script_of :: "jsval \<Rightarrow> failure + string" where
  "script_of v =
     (case get_prop v ''voiceover'' of
        Inl x \<Rightarrow> Inl x
      | Inr vo \<Rightarrow> (case vo of JStr s \<Rightarrow> Inr (trim s) | _ \<Rightarrow> Inl TypeError))"

text \<open>\<open>a || b\<close>.\<close>

definition js_or :: "jsval \<Rightarrow> jsval \<Rightarrow> jsval" where
  "js_or a b = (if truthy a then a else b)"

text \<open>
  \<open>h.slice(0, 6)\<close>: arrays and strings have the method. Of an array it is the first six
  elements; of a string the first six UTF-16 code units, the environment's \<open>str_slice06\<close>.
\<close>

definition slice06 :: "env \<Rightarrow> jsval \<Rightarrow> failure + jsval" where
  "slice06 e h =
     (case h of
        JArr xs \<Rightarrow> Inr (JArr (take 6 xs))
      | JStr s \<Rightarrow> Inr (JStr (str_slice06 e s))
      | _ \<Rightarrow> Inl TypeError)"

definition vo_name :: "nat \<Rightarrow> string" where
  "vo_name i = ''vo_'' @ dec (i + 1) @ ''.mp3''"

text \<open>The dash of the label is U+2014.\<close>

definition vo_label :: "env \<Rightarrow> nat \<Rightarrow> jsval \<Rightarrow> string" where
  "vo_label e i style =
     ''VoiceOver '' @ dec (i + 1) @ [CHR '' '', CHR 0xE2, CHR 0x80, CHR 0x94, CHR '' '']
       @ to_string e style"

text \<open>One turn of the loop, lines 95 to 105, for the index \<open>i\<close> and \<open>v = variants[i]\<close>.\<close>

definition synth_step ::
  "config \<Rightarrow> env \<Rightarrow> string \<Rightarrow> string \<Rightarrow> nat \<Rightarrow> jsval \<Rightarrow> world \<Rightarrow> (failure + entry) \<times> world" where
  "synth_step c e dir batchId i v w =
     (case script_of v of
        Inl x \<Rightarrow> (Inl x, w)
      | Inr scr \<Rightarrow>
          (case ttsToMp3 e i scr (path_join [dir, vo_name i]) w of
             (Inl x, w') \<Rightarrow> (Inl x, w')
           | (Inr u, w') \<Rightarrow>
               (case slice06 e (js_or (own_prop v ''hashtags'') (JArr [])) of
                  Inl x \<Rightarrow> (Inl x, w')
                | Inr tags \<Rightarrow>
                    (Inr \<lparr>label = vo_label e i (own_prop v ''style''),
                          url = BASE_URL c @ ''/public/voiceovers/'' @ batchId @ ''/'' @ vo_name i,
                          script = scr,
                          beats = js_or (own_prop v ''beats'') (JArr []),
                          hashtags = tags\<rparr>, w'))))"

fun synth_loop ::
  "config \<Rightarrow> env \<Rightarrow> string \<Rightarrow> string \<Rightarrow> nat \<Rightarrow> jsval list \<Rightarrow> entry list \<Rightarrow> world
     \<Rightarrow> (failure + entry list) \<times> world" where
  "synth_loop c e dir batchId i [] results w = (Inr results, w)"
| "synth_loop c e dir batchId i (v # vs) results w =
     (case synth_step c e dir batchId i v w of
        (Inl x, w') \<Rightarrow> (Inl x, w')
      | (Inr r, w') \<Rightarrow> synth_loop c e dir batchId (i + 1) vs (results @ [r]) w')"

definition batch_dir :: "config \<Rightarrow> string \<Rightarrow> string" where
  "batch_dir c batchId = path_join [server_dir c, ''public'', ''voiceovers'', batchId]"

definition generate :: "config \<Rightarrow> env \<Rightarrow> jsval \<Rightarrow> world \<Rightarrow> response \<times> world" where
  "generate c e body w =
     (case get_prop body ''specs'' of
        Inl x \<Rightarrow> (Failed ''Generation failed'' x, w)
      | Inr specs \<Rightarrow>
          (if \<not> truthy (opt_prop specs ''make'') \<or> \<not> truthy (opt_prop specs ''model'')
           then (Json 400 (JObj [(''error'', JStr ''Missing required specs: make, model.'')]), w)
           else
             (let w1 = w\<lparr>upstream_calls := upstream_calls w @ [ChatCall specs]\<rparr>
              in (case chat_variants e specs of
                    Inl x \<Rightarrow> (Failed ''Generation failed'' x, w1)
                  | Inr variants \<Rightarrow>
                      (let batchId = uuidv4 e; dir = batch_dir c batchId
                       in (case ensureDir e dir w1 of
                             Inl x \<Rightarrow> (Failed ''Generation failed'' x, w1)
                           | Inr w2 \<Rightarrow>
                               (case loop_items e variants of
                                  Inl x \<Rightarrow> (Failed ''Generation failed'' x, w2)
                                | Inr vs \<Rightarrow>
                                    (case synth_loop c e dir batchId 0 vs [] w2 of
                                       (Inl x, w3) \<Rightarrow> (Failed ''Generation failed'' x, w3)
                                     | (Inr results, w3) \<Rightarrow>
                                         (Json 200 (JObj [(''batchId'', JStr batchId),
                                                          (''files'', JArr (map entry_json results))]),
                                          w3)))))))))"

section \<open>POST /zip\<close>

text \<open>The values \<open>for (const u of files)\<close> visits; an object is not iterable.\<close>

fun iter_values :: "jsval \<Rightarrow> failure + jsval list" where
  "iter_values (JArr xs) = Inr xs"
| "iter_values (JStr s) = Inr (map (\<lambda>c. JStr [c]) s)"
| "iter_values v = Inl TypeError"

text \<open>Lines 131 to 137: the calls \<open>archive.file(diskPath, {name: ...})\<close>, in order.\<close>

fun collect :: "config \<Rightarrow> env \<Rightarrow> world \<Rightarrow> jsval list \<Rightarrow> failure + (string \<times> string) list" where
  "collect c e w [] = Inr []"
| "collect c e w (u # us) =
     (case url_pathname e u of
        None \<Rightarrow> Inl InvalidUrl
      | Some p \<Rightarrow>
          (let diskPath = path_join [server_dir c, p]
           in (case collect c e w us of
                 Inl x \<Rightarrow> Inl x
               | Inr rest \<Rightarrow>
                   Inr (if existsSync w diskPath then (diskPath, basename diskPath) # rest
                        else rest))))"

definition zip_handler :: "config \<Rightarrow> env \<Rightarrow> jsval \<Rightarrow> world \<Rightarrow> response" where
  "zip_handler c e body w =
     (case get_prop body ''files'' of
        Inl x \<Rightarrow> Failed ''ZIP failed'' x
      | Inr fl \<Rightarrow>
          if \<not> truthy (opt_prop fl ''length'')
          then Json 400 (JObj [(''error'', JStr ''No files selected.'')])
          else
            (case iter_values fl of
               Inl x \<Rightarrow> Failed ''ZIP failed'' x
             | Inr us \<Rightarrow>
                 (case collect c e w us of
                    Inl x \<Rightarrow> Failed ''ZIP failed'' x
                  | Inr es \<Rightarrow> ZipStream es)))"

section \<open>The application: middleware and routes in the order server.js installs them\<close>

datatype http_method = GET | HEAD | POST | OPTIONS | OtherMethod

text \<open>What \<open>express.json()\<close> makes of the request body: \<open>req.body\<close>, or an error with its status.\<close>

datatype parsed_body = Accepted jsval | Rejected nat

record request =
  req_method :: http_method
  req_path :: string
  x_app_key :: "string option"
  req_body :: parsed_body

definition lower :: "char \<Rightarrow> char" where
  "lower ch = (if 65 \<le> (of_char ch :: nat) \<and> (of_char ch :: nat) \<le> 90 then char_of (of_char ch + (32 :: nat)) else ch)"

text \<open>Express compares a route with the request path ignoring letter case and one trailing slash.\<close>

definition route_is :: "string \<Rightarrow> string \<Rightarrow> bool" where
  "route_is r p =
     (let q = map lower p
      in q = r \<or> q = r @ ''/'')"

definition under_mount :: "string \<Rightarrow> string \<Rightarrow> bool" where
  "under_mount m p = (let q = map lower p in q = m \<or> prefix (m @ ''/'') q)"

definition is_get :: "http_method \<Rightarrow> bool" where
  "is_get m = (m = GET \<or> m = HEAD)"

definition app :: "config \<Rightarrow> env \<Rightarrow> request \<Rightarrow> world \<Rightarrow> response \<times> world" where
  "app c e req w =
     (if req_method req = OPTIONS then (Preflight, w)
      else
        (case req_body req of
           Rejected st \<Rightarrow> (ParserError st, w)
         | Accepted body \<Rightarrow>
             (case (if is_get (req_method req) \<and> under_mount ''/public'' (req_path req)
                    then static_serve e (req_path req) else None) of
                Some f \<Rightarrow> (if req_method req = HEAD then NoBody 200 else StaticFile f, w)
              | None \<Rightarrow>
                  if is_get (req_method req) \<and> route_is ''/health'' (req_path req)
                  then (if req_method req = HEAD then NoBody 200
                        else Json 200 (JObj [(''ok'', JBool True)]), w)
                  else if APP_KEY c \<noteq> [] \<and> x_app_key req \<noteq> Some (APP_KEY c)
                  then (Json 401 (JObj [(''error'', JStr ''Unauthorized'')]), w)
                  else if req_method req = POST \<and> route_is ''/generate'' (req_path req)
                  then generate c e body w
                  else if req_method req = POST \<and> route_is ''/zip'' (req_path req)
                  then (zip_handler c e body w, w)
                  else (NotFound, w))))"

section \<open>Notions used in the properties\<close>

text \<open>A path segment that names a file or directory.\<close>

definition plain_seg :: "string \<Rightarrow> bool" where
  "plain_seg s = (s \<noteq> [] \<and> s \<noteq> ''.'' \<and> s \<noteq> ''..'' \<and> CHR ''/'' \<notin> set s)"

text \<open>An absolute normalized path without a trailing slash, as \<open>__dirname\<close> is.\<close>

definition normal_dir :: "string \<Rightarrow> bool" where
  "normal_dir d =
     (d = ''/'' \<or>
      (case split_slash d of
         [] \<Rightarrow> False
       | s # segs \<Rightarrow> s = [] \<and> segs \<noteq> [] \<and> list_all plain_seg segs))"

text \<open>The segments of a path after normalization.\<close>

definition dir_segs :: "string \<Rightarrow> string list" where
  "dir_segs d = norm_segs False (split_slash d) []"



text \<open>The asset store root, the directory the batch directories are created in.\<close>

definition asset_root :: "config \<Rightarrow> string" where
  "asset_root c = path_join [server_dir c, ''public'', ''voiceovers'']"

definition inside :: "string \<Rightarrow> string \<Rightarrow> bool" where
  "inside root p = (p = root \<or> prefix (root @ ''/'') p)"

text \<open>A URL path below \<open>/public/voiceovers\<close> that never steps upwards.\<close>

definition confined :: "string \<Rightarrow> bool" where
  "confined p =
     (let segs = filter (\<lambda>s. s \<noteq> [] \<and> s \<noteq> ''.'') (split_slash p)
      in take 2 segs = [''public'', ''voiceovers''] \<and> ''..'' \<notin> set segs)"

text \<open>The call \<open>ttsToMp3(txt, outPath)\<close>, the \<open>k\<close>-th of a request, returns without throwing.\<close>

definition tts_succeeds :: "env \<Rightarrow> nat \<Rightarrow> string \<Rightarrow> string \<Rightarrow> bool" where
  "tts_succeeds e k txt outPath =
     (case tts e k txt of None \<Rightarrow> False | Some r \<Rightarrow> ok r \<and> \<not> write_fails e outPath)"

text \<open>The hashtags of a variant are absent (or falsy), an array or a string.\<close>

definition sliceable :: "jsval \<Rightarrow> bool" where
  "sliceable v =
     (case js_or (own_prop v ''hashtags'') (JArr []) of
        JArr xs \<Rightarrow> True
      | JStr s \<Rightarrow> True
      | _ \<Rightarrow> False)"

section \<open>A sample installation\<close>

definition demo_config :: config where
  "demo_config =
     \<lparr>APP_KEY = ''s3cret'', BASE_URL = ''http://localhost:3000'', server_dir = ''/srv/app''\<rparr>"

definition demo_specs :: jsval where
  "demo_specs = JObj [(''make'', JStr ''Peterbilt''), (''model'', JStr ''579''), (''year'', JNum 2020)]"

definition demo_body :: jsval where
  "demo_body = JObj [(''specs'', demo_specs)]"

text \<open>The text the chat model answers with, and the document it parses to.\<close>

definition demo_content :: string where
  \<open>demo_content = ''{"variants":[{"style":"gritty","voiceover":" Built to haul. ","beats":["hook"],"hashtags":["#a","#b","#c","#d","#e","#f","#g"]},{"style":"friendly","voiceover":"Easy miles."}]}''\<close>

definition demo_variants :: "jsval list" where
  "demo_variants =
     [JObj [(''style'', JStr ''gritty''), (''voiceover'', JStr '' Built to haul. ''),
            (''beats'', JArr [JStr ''hook'']),
            (''hashtags'', JArr [JStr ''#a'', JStr ''#b'', JStr ''#c'', JStr ''#d'', JStr ''#e'',
                                 JStr ''#f'', JStr ''#g''])],
      JObj [(''style'', JStr ''friendly''), (''voiceover'', JStr ''Easy miles.'')]]"

text \<open>A JSON string literal: quotes and backslashes escaped.\<close>

definition json_quote :: "string \<Rightarrow> string" where
  "json_quote s =
     CHR 0x22 # concat (map (\<lambda>ch. if ch = CHR 0x22 \<or> ch = CHR 0x5C then [CHR 0x5C, ch] else [ch]) s)
       @ [CHR 0x22]"

text \<open>The body of a chat completion that carries \<open>content\<close>, and its parse.\<close>

definition chat_body :: "string \<Rightarrow> string" where
  \<open>chat_body content = ''{"choices":[{"message":{"content":'' @ json_quote content @ ''}}]}''\<close>

definition chat_json :: "string \<Rightarrow> jsval" where
  "chat_json content = JObj [(''choices'', JArr [JObj [(''message'', JObj [(''content'', JStr content)])]])]"

definition demo_uuid :: string where
  "demo_uuid = ''1b9d6bcd-bbfd-4b2d-9b5d-ab8dfbbd4bed''"

text \<open>
  \<open>JSON.parse\<close> and the URL parser on the texts used below; the speech service returns
  the text it was sent behind a tag. Of the other built-ins the sample environment gives
  what the sample texts need: they are ASCII, where a UTF-16 code unit is one character.
\<close>

definition demo_parse :: "jsval \<Rightarrow> jsval option" where
  \<open>demo_parse =
     map_of [(JStr (chat_body demo_content), chat_json demo_content),
             (JStr demo_content, JObj [(''variants'', JArr demo_variants)]),
             (JStr (chat_body ''{}''), chat_json ''{}''),
             (JStr ''{}'', JObj [])]\<close>

definition demo_pathname :: "jsval \<Rightarrow> string option" where
  "demo_pathname =
     map_of [(JStr ''http://localhost:3000/public/voiceovers/1b9d6bcd-bbfd-4b2d-9b5d-ab8dfbbd4bed/vo_1.mp3'',
              ''/public/voiceovers/1b9d6bcd-bbfd-4b2d-9b5d-ab8dfbbd4bed/vo_1.mp3''),
             (JStr ''http://localhost:3000/public/voiceovers/1b9d6bcd-bbfd-4b2d-9b5d-ab8dfbbd4bed/vo_2.mp3'',
              ''/public/voiceovers/1b9d6bcd-bbfd-4b2d-9b5d-ab8dfbbd4bed/vo_2.mp3''),
             (JStr ''http://localhost:3000/server.js'', ''/server.js'')]"

definition demo_env :: env where
  "demo_env =
     \<lparr>chat = (\<lambda>specs. Some \<lparr>ok = True, status = 200, payload = chat_body demo_content\<rparr>),
      json_parse = demo_parse,
      tts = (\<lambda>k t. Some \<lparr>ok = True, status = 200, payload = ''mp3:'' @ t\<rparr>),
      uuidv4 = demo_uuid,
      mkdir_fails = (\<lambda>p. False),
      write_fails = (\<lambda>p. False),
      url_pathname = demo_pathname,
      str_to_num = (\<lambda>s. None),
      num_str = (\<lambda>n. if n = 10 ^ 21 then ''1e+21'' else []),
      str_slice06 = take 6,
      static_serve = (\<lambda>p. None)\<rparr>"

text \<open>The chat model answers with the empty object, which has no \<open>variants\<close>.\<close>

definition shapeless_env :: env where
  \<open>shapeless_env = demo_env\<lparr>chat := (\<lambda>specs. Some \<lparr>ok = True, status = 200, payload = chat_body ''{}''\<rparr>)\<rparr>\<close>

text \<open>The chat endpoint answers 429.\<close>

definition throttled_env :: env where
  "throttled_env =
     demo_env\<lparr>chat := (\<lambda>specs. Some \<lparr>ok = False, status = 429, payload = ''slow down''\<rparr>)\<rparr>"

text \<open>The second speech request is answered 500.\<close>

definition flaky_env :: env where
  "flaky_env =
     demo_env\<lparr>tts := (\<lambda>k t. if k = 1 then Some \<lparr>ok = False, status = 500, payload = ''busy''\<rparr>
                              else Some \<lparr>ok = True, status = 200, payload = ''mp3:'' @ t\<rparr>)\<rparr>"

text \<open>The disk before the first request, and later with one file of the batch left.\<close>

definition demo_world :: world where
  "demo_world =
     \<lparr>fs_dirs = {''/srv'', ''/srv/app''},
      fs_files = [''/srv/app/server.js'' \<mapsto> ''import express''],
      upstream_calls = []\<rparr>"

definition later_world :: world where
  "later_world =
     \<lparr>fs_dirs = {''/srv'', ''/srv/app'', ''/srv/app/public'', ''/srv/app/public/voiceovers'',
                 ''/srv/app/public/voiceovers/1b9d6bcd-bbfd-4b2d-9b5d-ab8dfbbd4bed''},
      fs_files = [''/srv/app/server.js'' \<mapsto> ''import express'',
                  ''/srv/app/public/voiceovers/1b9d6bcd-bbfd-4b2d-9b5d-ab8dfbbd4bed/vo_1.mp3''
                    \<mapsto> ''mp3:Built to haul.''],
      upstream_calls = []\<rparr>"

text \<open>Requests: without the key, with a body the JSON parser refused, the health check.\<close>

definition keyless_generate :: request where
  "keyless_generate =
     \<lparr>req_method = POST, req_path = ''/generate'', x_app_key = None, req_body = Accepted demo_body\<rparr>"

definition keyless_zip :: request where
  "keyless_zip =
     \<lparr>req_method = POST, req_path = ''/zip'', x_app_key = Some ''guess'',
      req_body = Accepted (JObj [(''files'', JArr [])])\<rparr>"

definition broken_generate :: request where
  "broken_generate =
     \<lparr>req_method = POST, req_path = ''/generate'', x_app_key = None, req_body = Rejected 400\<rparr>"

definition health_check :: request where
  "health_check =
     \<lparr>req_method = GET, req_path = ''/health'', x_app_key = None, req_body = Accepted (JObj [])\<rparr>"

text \<open>The same installation with no secret configured.\<close>

definition open_config :: config where
  "open_config = demo_config\<lparr>APP_KEY := []\<rparr>"

definition demo_urls :: "jsval list" where
  "demo_urls =
     [JStr ''http://localhost:3000/public/voiceovers/1b9d6bcd-bbfd-4b2d-9b5d-ab8dfbbd4bed/vo_1.mp3'',
      JStr ''http://localhost:3000/public/voiceovers/1b9d6bcd-bbfd-4b2d-9b5d-ab8dfbbd4bed/vo_2.mp3'']"

section \<open>Facts about paths\<close>

lemma split_slash_nonempty: "split_slash s \<noteq> []"
  by (induction s) (auto split: list.splits)

lemma split_slash_append: "split_slash (x @ CHR ''/'' # y) = split_slash x @ split_slash y"
proof (induction x)
  case Nil
  then show ?case by simp
next
  case (Cons c x)
  then show ?case
    using split_slash_nonempty[of x] by (cases "split_slash x") auto
qed

lemma split_slash_plain: "CHR ''/'' \<notin> set s \<Longrightarrow> split_slash s = [s]"
  by (induction s) auto

lemma join_split: "join_with ''/'' (split_slash s) = s"
proof (induction s)
  case Nil
  then show ?case by simp
next
  case (Cons c s)
  show ?case
  proof (cases "c = CHR ''/''")
    case True
    with Cons split_slash_nonempty[of s] show ?thesis
      by (cases "split_slash s") auto
  next
    case False
    obtain w ws where sp: "split_slash s = w # ws"
      using split_slash_nonempty[of s] by (cases "split_slash s") auto
    with Cons False show ?thesis by (cases ws) auto
  qed
qed

lemma join_with_append:
  "xs \<noteq> [] \<Longrightarrow> ys \<noteq> [] \<Longrightarrow> join_with sep (xs @ ys) = join_with sep xs @ sep @ join_with sep ys"
proof (induction xs rule: induct_list012)
  case 1
  then show ?case by simp
next
  case (2 x)
  then show ?case by (cases ys) auto
next
  case (3 x y zs)
  then show ?case by simp
qed

lemma split_join:
  "segs \<noteq> [] \<Longrightarrow> \<forall>s\<in>set segs. CHR ''/'' \<notin> set s \<Longrightarrow> split_slash (join_with ''/'' segs) = segs"
proof (induction segs rule: induct_list012)
  case 1
  then show ?case by simp
next
  case (2 x)
  then show ?case by (simp add: split_slash_plain)
next
  case (3 x y zs)
  then show ?case
    using split_slash_append[of x "join_with ''/'' (y # zs)"]
    by (simp add: split_slash_plain)
qed

lemma norm_segs_append:
  "norm_segs al (xs @ ys) st = norm_segs al ys (rev (norm_segs al xs st))"
  by (induction xs arbitrary: st) (auto split: list.splits)

lemma norm_segs_plain: "list_all plain_seg xs \<Longrightarrow> norm_segs al xs st = rev st @ xs"
  by (induction xs arbitrary: st) (auto simp: plain_seg_def)

lemma plain_no_slash: "list_all plain_seg ps \<Longrightarrow> \<forall>s\<in>set ps. CHR ''/'' \<notin> set s"
  by (auto simp: list_all_iff plain_seg_def)

lemma join_plain_nonempty: "ps \<noteq> [] \<Longrightarrow> list_all plain_seg ps \<Longrightarrow> join_with sep ps \<noteq> []"
  by (induction ps rule: induct_list012) (auto simp: plain_seg_def)

lemma last_join_plain:
  "ps \<noteq> [] \<Longrightarrow> list_all plain_seg ps \<Longrightarrow> last (join_with ''/'' ps) \<noteq> CHR ''/''"
proof (induction ps rule: induct_list012)
  case 1
  then show ?case by simp
next
  case (2 x)
  then have "x \<noteq> []" and "CHR ''/'' \<notin> set x" by (auto simp: plain_seg_def)
  then show ?case by (metis last_in_set join_with.simps(2))
next
  case (3 x y zs)
  then show ?case using join_plain_nonempty[of "y # zs" "''/''"] by simp
qed

lemma normal_dir_segs:
  assumes "normal_dir d"
  shows "list_all plain_seg (dir_segs d)" and "d \<noteq> []" and "hd d = CHR ''/''"
    and "d = (if dir_segs d = [] then ''/'' else CHR ''/'' # join_with ''/'' (dir_segs d))"
proof -
  show "list_all plain_seg (dir_segs d)"
    using assms by (auto simp: normal_dir_def dir_segs_def norm_segs_plain split: list.splits)
  show ne: "d \<noteq> []" using assms by (auto simp: normal_dir_def)
  show "d = (if dir_segs d = [] then ''/'' else CHR ''/'' # join_with ''/'' (dir_segs d))"
  proof (cases "d = ''/''")
    case True
    then show ?thesis by (simp add: dir_segs_def)
  next
    case False
    with assms obtain segs where sp: "split_slash d = [] # segs" "segs \<noteq> []" "list_all plain_seg segs"
      by (auto simp: normal_dir_def split: list.splits)
    then have ds: "dir_segs d = segs" by (simp add: dir_segs_def norm_segs_plain)
    have "d = join_with ''/'' ([] # segs)" using join_split[of d] sp by simp
    with sp ds show ?thesis by (cases segs) auto
  qed
  then show "hd d = CHR ''/''" by (auto split: if_splits) (metis list.sel(1))+
qed

lemma path_join_dir:
  assumes "normal_dir d" and "p \<noteq> []"
  shows "path_join [d, p] =
     (let res = join_with ''/'' (norm_segs False (split_slash p) (rev (dir_segs d)))
      in if res = [] then ''/'' else CHR ''/'' # res @ (if last p = CHR ''/'' then ''/'' else []))"
proof -
  have ne: "d \<noteq> []" and hd: "hd d = CHR ''/''" using normal_dir_segs[OF assms(1)] by auto
  have "path_join [d, p] = normalize (d @ CHR ''/'' # p)"
    using ne assms(2) by (simp add: path_join_def)
  moreover have "norm_segs False (split_slash (d @ CHR ''/'' # p)) []
      = norm_segs False (split_slash p) (rev (dir_segs d))"
    by (simp add: split_slash_append norm_segs_append dir_segs_def)
  moreover have "hd (d @ CHR ''/'' # p) = CHR ''/''" using ne hd by simp
  moreover have "last (d @ CHR ''/'' # p) = last p" using assms(2) by simp
  ultimately show ?thesis by (simp add: normalize_def Let_def)
qed

lemma path_join_plain:
  assumes "normal_dir d" and "ps \<noteq> []" and "list_all plain_seg ps"
  shows "path_join (d # ps) = CHR ''/'' # join_with ''/'' (dir_segs d @ ps)"
proof -
  let ?p = "join_with ''/'' ps"
  have pne: "?p \<noteq> []" using assms by (simp add: join_plain_nonempty)
  have ne: "d \<noteq> []" using normal_dir_segs[OF assms(1)] by auto
  have flt: "filter (\<lambda>a. a \<noteq> []) (d # ps) = d # ps"
    using ne assms(3) by (auto simp: list_all_iff plain_seg_def filter_id_conv)
  have "join_with ''/'' (d # ps) = d @ CHR ''/'' # ?p" using assms(2) by (cases ps) auto
  then have "path_join (d # ps) = path_join [d, ?p]"
    using flt pne ne by (simp add: path_join_def)
  also have "\<dots> = CHR ''/'' # join_with ''/'' (dir_segs d @ ps)"
  proof -
    have sp: "split_slash ?p = ps" using assms plain_no_slash by (simp add: split_join)
    have "norm_segs False ps (rev (dir_segs d)) = dir_segs d @ ps"
      using assms(3) by (simp add: norm_segs_plain)
    moreover have "join_with ''/'' (dir_segs d @ ps) \<noteq> []"
      using assms normal_dir_segs(1)[OF assms(1)] by (intro join_plain_nonempty) auto
    moreover have "last ?p \<noteq> CHR ''/''" using assms by (simp add: last_join_plain)
    ultimately show ?thesis
      using path_join_dir[OF assms(1) pne] sp by (simp add: Let_def)
  qed
  finally show ?thesis .
qed

lemma normal_abs:
  assumes "segs \<noteq> []" and "list_all plain_seg segs"
  shows "normal_dir (CHR ''/'' # join_with ''/'' segs)"
    and "dir_segs (CHR ''/'' # join_with ''/'' segs) = segs"
proof -
  have sp: "split_slash (CHR ''/'' # join_with ''/'' segs) = [] # segs"
    using assms plain_no_slash by (simp add: split_join)
  show "normal_dir (CHR ''/'' # join_with ''/'' segs)"
    unfolding normal_dir_def using sp assms by simp
  show "dir_segs (CHR ''/'' # join_with ''/'' segs) = segs"
    unfolding dir_segs_def using sp assms by (simp add: norm_segs_plain)
qed

lemma path_join_child:
  assumes "normal_dir d" and "d \<noteq> ''/''" and "plain_seg n"
  shows "path_join [d, n] = d @ ''/'' @ n"
proof -
  have sne: "dir_segs d \<noteq> []" and d: "d = CHR ''/'' # join_with ''/'' (dir_segs d)"
    using normal_dir_segs(4)[OF assms(1)] assms(2) by (auto split: if_splits)
  have "path_join [d, n] = CHR ''/'' # join_with ''/'' (dir_segs d @ [n])"
    using path_join_plain[OF assms(1), of "[n]"] assms(3) by simp
  also have "\<dots> = CHR ''/'' # join_with ''/'' (dir_segs d) @ ''/'' @ n"
    using sne by (simp add: join_with_append)
  finally show ?thesis using d by simp
qed



section \<open>Facts about the file names\<close>

lemma dec_nonempty: "dec n \<noteq> []"
  by (subst dec.simps) simp

lemma digit_inj: "a < 10 \<Longrightarrow> b < 10 \<Longrightarrow> digit a = digit b \<Longrightarrow> a = b"
proof -
  assume a: "a < 10" and b: "b < 10" and eq: "digit a = digit b"
  have "distinct ''0123456789''" by simp
  with a b eq show "a = b"
    unfolding digit_def by (subst (asm) nth_eq_iff_index_eq) simp_all
qed

lemma digit_chars: "d < 10 \<Longrightarrow> digit d \<in> set ''0123456789''"
  unfolding digit_def by (rule nth_mem) simp

lemma dec_chars: "ch \<in> set (dec n) \<Longrightarrow> ch \<in> set ''0123456789''"
proof (induction n rule: dec.induct)
  case (1 n)
  show ?case
  proof (cases "n < 10")
    case True
    with 1(2) show ?thesis using digit_chars[of n] by (subst (asm) dec.simps) simp
  next
    case False
    with 1 show ?thesis using digit_chars[of "n mod 10"]
      by (subst (asm) (2) dec.simps) auto
  qed
qed

lemma dec_inj: "dec m = dec n \<Longrightarrow> m = n"
proof (induction m arbitrary: n rule: dec.induct)
  case (1 m)
  show ?case
  proof (cases "m < 10")
    case mT: True
    show ?thesis
    proof (cases "n < 10")
      case True
      with mT 1(2) show ?thesis using digit_inj[of m n] by (simp add: dec.simps[of m] dec.simps[of n])
    next
      case False
      with mT 1(2) dec_nonempty[of "n div 10"] show ?thesis
        by (simp add: dec.simps[of m] dec.simps[of n])
    qed
  next
    case mF: False
    show ?thesis
    proof (cases "n < 10")
      case True
      with mF 1(2) dec_nonempty[of "m div 10"] show ?thesis
        by (simp add: dec.simps[of m] dec.simps[of n])
    next
      case False
      with mF 1(2) have "dec (m div 10) = dec (n div 10)" and "digit (m mod 10) = digit (n mod 10)"
        by (simp_all add: dec.simps[of m] dec.simps[of n])
      then have "m div 10 = n div 10" and "m mod 10 = n mod 10"
        using 1(1)[OF mF] digit_inj[of "m mod 10" "n mod 10"] by auto
      then show ?thesis by (metis div_mult_mod_eq)
    qed
  qed
qed

lemma vo_name_inj: "vo_name i = vo_name j \<Longrightarrow> i = j"
  using dec_inj[of "i + 1" "j + 1"] by (simp add: vo_name_def)

lemma vo_name_plain: "plain_seg (vo_name i)"
proof -
  have "CHR ''/'' \<notin> set (dec (i + 1))" using dec_chars[of "CHR ''/''" "i + 1"] by auto
  then show ?thesis by (simp add: plain_seg_def vo_name_def)
qed

section \<open>Facts about the synthesis loop\<close>

lemma ttsToMp3_ok:
  "tts_succeeds e k t p \<Longrightarrow>
   ttsToMp3 e k t p w =
     (Inr (), w\<lparr>upstream_calls := upstream_calls w @ [TtsCall t],
               fs_files := (fs_files w)(p \<mapsto> payload (the (tts e k t)))\<rparr>)"
  by (auto simp: ttsToMp3_def tts_succeeds_def Let_def split: option.splits)

lemma ttsToMp3_fail:
  "\<not> tts_succeeds e k t p \<Longrightarrow>
   \<exists>x. ttsToMp3 e k t p w = (Inl x, w\<lparr>upstream_calls := upstream_calls w @ [TtsCall t]\<rparr>)"
  by (auto simp: ttsToMp3_def tts_succeeds_def Let_def split: option.splits)

lemma sliceable_slice: "sliceable v \<Longrightarrow> \<exists>tags. slice06 e (js_or (own_prop v ''hashtags'') (JArr [])) = Inr tags"
  by (auto simp: sliceable_def slice06_def split: jsval.splits)

lemma synth_step_ok:
  assumes "script_of v = Inr t" and "sliceable v"
    and "tts_succeeds e i t (path_join [dir, vo_name i])"
  shows "\<exists>r. synth_step c e dir bid i v w =
            (Inr r, w\<lparr>upstream_calls := upstream_calls w @ [TtsCall t],
                      fs_files := (fs_files w)(path_join [dir, vo_name i] \<mapsto> payload (the (tts e i t)))\<rparr>)
          \<and> label r = vo_label e i (own_prop v ''style'')
          \<and> url r = BASE_URL c @ ''/public/voiceovers/'' @ bid @ ''/'' @ vo_name i
          \<and> script r = t"
proof -
  from sliceable_slice[OF assms(2)] obtain tags
    where "slice06 e (js_or (own_prop v ''hashtags'') (JArr [])) = Inr tags" ..
  with assms(1) ttsToMp3_ok[OF assms(3), of w] show ?thesis
    by (simp add: synth_step_def)
qed

lemma synth_step_fail:
  assumes "script_of v = Inr t" and "\<not> tts_succeeds e i t (path_join [dir, vo_name i])"
  shows "\<exists>x. synth_step c e dir bid i v w =
            (Inl x, w\<lparr>upstream_calls := upstream_calls w @ [TtsCall t]\<rparr>)"
proof -
  from ttsToMp3_fail[OF assms(2), of w] obtain x where
    "ttsToMp3 e i t (path_join [dir, vo_name i]) w
       = (Inl x, w\<lparr>upstream_calls := upstream_calls w @ [TtsCall t]\<rparr>)" ..
  with assms(1) show ?thesis by (simp add: synth_step_def)
qed

lemma synth_loop_ok:
  fixes s :: "nat \<Rightarrow> string"
  assumes inj: "inj (\<lambda>k. path_join [dir, vo_name k])"
  shows "(\<forall>j<length vs. script_of (vs ! j) = Inr (s (i + j)) \<and> sliceable (vs ! j) \<and>
            tts_succeeds e (i + j) (s (i + j)) (path_join [dir, vo_name (i + j)])) \<Longrightarrow>
    \<exists>rs w'. synth_loop c e dir bid i vs acc w = (Inr (acc @ rs), w') \<and> length rs = length vs
      \<and> (\<forall>j<length vs. label (rs ! j) = vo_label e (i + j) (own_prop (vs ! j) ''style'')
            \<and> url (rs ! j) = BASE_URL c @ ''/public/voiceovers/'' @ bid @ ''/'' @ vo_name (i + j)
            \<and> script (rs ! j) = s (i + j)
            \<and> fs_files w' (path_join [dir, vo_name (i + j)])
                = Some (payload (the (tts e (i + j) (s (i + j))))))
      \<and> (\<forall>p. (\<forall>j<length vs. p \<noteq> path_join [dir, vo_name (i + j)]) \<longrightarrow> fs_files w' p = fs_files w p)
      \<and> fs_dirs w' = fs_dirs w"
proof (induction vs arbitrary: i acc w)
  case Nil
  then show ?case by simp
next
  case (Cons v vs)
  let ?P = "\<lambda>k. path_join [dir, vo_name k]"
  from Cons.prems have v: "script_of v = Inr (s i)" "sliceable v" "tts_succeeds e i (s i) (?P i)"
    and rest: "\<forall>j<length vs. script_of (vs ! j) = Inr (s (Suc i + j)) \<and> sliceable (vs ! j) \<and>
            tts_succeeds e (Suc i + j) (s (Suc i + j)) (?P (Suc i + j))"
    by (auto simp: All_less_Suc2)
  define w1 where "w1 = w\<lparr>upstream_calls := upstream_calls w @ [TtsCall (s i)],
                      fs_files := (fs_files w)(?P i \<mapsto> payload (the (tts e i (s i))))\<rparr>"
  from synth_step_ok[OF v, of c bid w] obtain r where
    step: "synth_step c e dir bid i v w = (Inr r, w1)"
    and r: "label r = vo_label e i (own_prop v ''style'')"
      "url r = BASE_URL c @ ''/public/voiceovers/'' @ bid @ ''/'' @ vo_name i"
      "script r = s i"
    unfolding w1_def by blast
  from Cons.IH[OF rest, of "acc @ [r]" w1] obtain rs w' where
    loop: "synth_loop c e dir bid (Suc i) vs (acc @ [r]) w1 = (Inr ((acc @ [r]) @ rs), w')"
    and len: "length rs = length vs"
    and each: "\<forall>j<length vs. label (rs ! j) = vo_label e (Suc i + j) (own_prop (vs ! j) ''style'')
            \<and> url (rs ! j) = BASE_URL c @ ''/public/voiceovers/'' @ bid @ ''/'' @ vo_name (Suc i + j)
            \<and> script (rs ! j) = s (Suc i + j)
            \<and> fs_files w' (?P (Suc i + j)) = Some (payload (the (tts e (Suc i + j) (s (Suc i + j)))))"
    and other: "\<forall>p. (\<forall>j<length vs. p \<noteq> ?P (Suc i + j)) \<longrightarrow> fs_files w' p = fs_files w1 p"
    and dirs: "fs_dirs w' = fs_dirs w1"
    by blast
  have "\<forall>j<length vs. ?P i \<noteq> ?P (Suc i + j)"
    using inj by (auto dest!: injD)
  with other have first: "fs_files w' (?P i) = Some (payload (the (tts e i (s i))))"
    by (simp add: w1_def)
  have "synth_loop c e dir bid i (v # vs) acc w = (Inr (acc @ (r # rs)), w')"
    using step loop by simp
  moreover have "length (r # rs) = length (v # vs)" using len by simp
  moreover have "\<forall>j<length (v # vs). label ((r # rs) ! j) = vo_label e (i + j) (own_prop ((v # vs) ! j) ''style'')
            \<and> url ((r # rs) ! j) = BASE_URL c @ ''/public/voiceovers/'' @ bid @ ''/'' @ vo_name (i + j)
            \<and> script ((r # rs) ! j) = s (i + j)
            \<and> fs_files w' (?P (i + j)) = Some (payload (the (tts e (i + j) (s (i + j)))))"
    using r first each by (simp add: All_less_Suc2)
  moreover have "\<forall>p. (\<forall>j<length (v # vs). p \<noteq> ?P (i + j)) \<longrightarrow> fs_files w' p = fs_files w p"
    using other by (simp add: All_less_Suc2 w1_def)
  moreover have "fs_dirs w' = fs_dirs w" using dirs by (simp add: w1_def)
  ultimately show ?case by blast
qed

lemma synth_loop_append:
  "synth_loop c e dir bid i (xs @ ys) acc w =
     (case synth_loop c e dir bid i xs acc w of
        (Inl x, w') \<Rightarrow> (Inl x, w')
      | (Inr rs, w') \<Rightarrow> synth_loop c e dir bid (i + length xs) ys rs w')"
  by (induction xs arbitrary: i acc w) (auto split: prod.splits sum.splits)

lemma synth_step_inv:
  assumes "synth_step c e dir bid i v w = (Inr r, w')"
  shows "script_of v = Inr (script r)"
    and "beats r = js_or (own_prop v ''beats'') (JArr [])"
    and "slice06 e (js_or (own_prop v ''hashtags'') (JArr [])) = Inr (hashtags r)"
  using assms by (auto simp: synth_step_def split: sum.splits prod.splits)

lemma synth_loop_inv:
  "synth_loop c e dir bid i vs acc w = (Inr rs, w') \<Longrightarrow>
   \<exists>new. rs = acc @ new \<and> length new = length vs \<and>
     (\<forall>j<length vs. \<exists>w1 w2. synth_step c e dir bid (i + j) (vs ! j) w1 = (Inr (new ! j), w2))"
proof (induction vs arbitrary: i acc w)
  case Nil
  then show ?case by simp
next
  case (Cons v vs)
  from Cons.prems obtain r w1 where
    step: "synth_step c e dir bid i v w = (Inr r, w1)"
    and loop: "synth_loop c e dir bid (Suc i) vs (acc @ [r]) w1 = (Inr rs, w')"
    by (auto split: prod.splits sum.splits)
  from Cons.IH[OF loop] obtain new where
    new: "rs = (acc @ [r]) @ new" "length new = length vs"
      "\<forall>j<length vs. \<exists>w1 w2. synth_step c e dir bid (Suc i + j) (vs ! j) w1 = (Inr (new ! j), w2)"
    by blast
  have "rs = acc @ (r # new)" using new(1) by simp
  moreover have "length (r # new) = length (v # vs)" using new(2) by simp
  moreover have "\<forall>j<length (v # vs). \<exists>w1 w2.
      synth_step c e dir bid (i + j) ((v # vs) ! j) w1 = (Inr ((r # new) ! j), w2)"
    using step new(3) by (auto simp: All_less_Suc2)
  ultimately show ?case by blast
qed

lemma batch_dir_eq:
  assumes "normal_dir (server_dir c)" and "plain_seg bid"
  shows "batch_dir c bid = CHR ''/'' # join_with ''/'' (dir_segs (server_dir c) @ [''public'', ''voiceovers'', bid])"
  unfolding batch_dir_def
  using path_join_plain[OF assms(1), of "[''public'', ''voiceovers'', bid]"] assms(2)
  by (simp add: plain_seg_def)

lemma batch_dir_normal:
  assumes "normal_dir (server_dir c)" and "plain_seg bid"
  shows "normal_dir (batch_dir c bid)" and "batch_dir c bid \<noteq> ''/''"
proof -
  let ?segs = "dir_segs (server_dir c) @ [''public'', ''voiceovers'', bid]"
  have pl: "list_all plain_seg ?segs"
    using normal_dir_segs(1)[OF assms(1)] assms(2) by (simp add: plain_seg_def)
  have ne: "?segs \<noteq> []" by simp
  show "normal_dir (batch_dir c bid)"
    using normal_abs(1)[OF ne pl] batch_dir_eq[OF assms] by simp
  have "join_with ''/'' ?segs \<noteq> []" using join_plain_nonempty[OF ne pl] .
  then show "batch_dir c bid \<noteq> ''/''" using batch_dir_eq[OF assms] by simp
qed

lemma vo_path_eq:
  assumes "normal_dir (server_dir c)" and "plain_seg bid"
  shows "path_join [batch_dir c bid, vo_name k] = batch_dir c bid @ ''/'' @ vo_name k"
  using path_join_child[OF batch_dir_normal[OF assms] vo_name_plain] .

lemma vo_path_inj:
  assumes "normal_dir (server_dir c)" and "plain_seg bid"
  shows "inj (\<lambda>k. path_join [batch_dir c bid, vo_name k])"
  by (rule injI) (simp add: vo_path_eq[OF assms] vo_name_inj)

lemma ensureDir_ok:
  assumes "\<not> mkdir_fails e d"
  shows "\<exists>w2. ensureDir e d w = Inr w2 \<and> fs_files w2 = fs_files w \<and>
           upstream_calls w2 = upstream_calls w \<and> fs_dirs w \<subseteq> fs_dirs w2"
  using assms by (auto simp: ensureDir_def)

lemma generate_200_inv:
  assumes "generate c e body w = (Json 200 out, w')"
  shows "\<exists>specs variants vs rs w2.
           get_prop body ''specs'' = Inr specs \<and> chat_variants e specs = Inr variants \<and>
           loop_items e variants = Inr vs \<and>
           synth_loop c e (batch_dir c (uuidv4 e)) (uuidv4 e) 0 vs [] w2 = (Inr rs, w') \<and>
           out = JObj [(''batchId'', JStr (uuidv4 e)), (''files'', JArr (map entry_json rs))]"
  using assms
  by (auto simp: generate_def Let_def split: sum.splits if_splits prod.splits)

lemma generate_run:
  fixes s :: "nat \<Rightarrow> string"
  assumes specs: "get_prop body ''specs'' = Inr specs"
      "truthy (opt_prop specs ''make'')" "truthy (opt_prop specs ''model'')"
    and chat: "chat_variants e specs = Inr (JArr vs)"
    and turns: "\<forall>j<length vs. script_of (vs ! j) = Inr (s j) \<and> sliceable (vs ! j) \<and>
        tts_succeeds e j (s j) (batch_dir c (uuidv4 e) @ ''/'' @ vo_name j)"
    and dir: "normal_dir (server_dir c)" "plain_seg (uuidv4 e)"
      "\<not> mkdir_fails e (batch_dir c (uuidv4 e))"
  shows "\<exists>rs w'. generate c e body w =
            (Json 200 (JObj [(''batchId'', JStr (uuidv4 e)), (''files'', JArr (map entry_json rs))]), w')
      \<and> length rs = length vs
      \<and> (\<forall>j<length vs. label (rs ! j) = vo_label e j (own_prop (vs ! j) ''style'')
             \<and> url (rs ! j) = BASE_URL c @ ''/public/voiceovers/'' @ uuidv4 e @ ''/'' @ vo_name j
             \<and> script (rs ! j) = s j
             \<and> fs_files w' (batch_dir c (uuidv4 e) @ ''/'' @ vo_name j)
                 = Some (payload (the (tts e j (s j)))))
      \<and> (\<forall>p. (\<forall>j<length vs. p \<noteq> batch_dir c (uuidv4 e) @ ''/'' @ vo_name j)
               \<longrightarrow> fs_files w' p = fs_files w p)"
proof -
  let ?D = "batch_dir c (uuidv4 e)"
  let ?P = "\<lambda>k. path_join [?D, vo_name k]"
  let ?w1 = "w\<lparr>upstream_calls := upstream_calls w @ [ChatCall specs]\<rparr>"
  have P: "\<And>k. ?P k = ?D @ ''/'' @ vo_name k" using vo_path_eq[OF dir(1,2)] .
  have inj: "inj ?P" using vo_path_inj[OF dir(1,2)] .
  from ensureDir_ok[OF dir(3), of ?w1] obtain w2 where
    ens: "ensureDir e ?D ?w1 = Inr w2" and f2: "fs_files w2 = fs_files w"
    by auto
  have turns': "\<forall>j<length vs. script_of (vs ! j) = Inr (s (0 + j)) \<and> sliceable (vs ! j) \<and>
        tts_succeeds e (0 + j) (s (0 + j)) (?P (0 + j))"
    using turns by (simp add: P)
  from synth_loop_ok[OF inj turns', of c "uuidv4 e" "[]" w2] obtain rs w' where
    loop: "synth_loop c e ?D (uuidv4 e) 0 vs [] w2 = (Inr rs, w')"
    and len: "length rs = length vs"
    and each: "\<forall>j<length vs. label (rs ! j) = vo_label e j (own_prop (vs ! j) ''style'')
             \<and> url (rs ! j) = BASE_URL c @ ''/public/voiceovers/'' @ uuidv4 e @ ''/'' @ vo_name j
             \<and> script (rs ! j) = s j
             \<and> fs_files w' (?D @ ''/'' @ vo_name j) = Some (payload (the (tts e j (s j))))"
    and other: "\<forall>p. (\<forall>j<length vs. p \<noteq> ?D @ ''/'' @ vo_name j) \<longrightarrow> fs_files w' p = fs_files w2 p"
    by (auto simp: P)
  have gen: "generate c e body w =
      (Json 200 (JObj [(''batchId'', JStr (uuidv4 e)), (''files'', JArr (map entry_json rs))]), w')"
    using specs chat ens loop by (simp add: generate_def Let_def)
  from other f2 have "\<forall>p. (\<forall>j<length vs. p \<noteq> ?D @ ''/'' @ vo_name j) \<longrightarrow> fs_files w' p = fs_files w p"
    by simp
  with gen len each show ?thesis by blast
qed

lemma entry_json_fields:
  "own_prop (entry_json x) ''label'' = JStr (label x)"
  "own_prop (entry_json x) ''url'' = JStr (url x)"
  "own_prop (entry_json x) ''script'' = JStr (script x)"
  "own_prop (entry_json x) ''beats'' = beats x"
  "own_prop (entry_json x) ''hashtags'' = hashtags x"
  by (simp_all add: entry_json_def)

lemma step_fields:
  assumes "synth_step c e dir bid i v w1 = (Inr r, w2)"
  shows "(\<exists>t. own_prop v ''voiceover'' = JStr t \<and> script r = trim t)
       \<and> ((\<exists>xs. hashtags r = JArr xs \<and> length xs \<le> 6)
          \<or> (\<exists>t. own_prop v ''hashtags'' = JStr t \<and> hashtags r = JStr (str_slice06 e t)))
       \<and> (\<not> truthy (own_prop v ''hashtags'') \<longrightarrow> hashtags r = JArr [])
       \<and> (\<forall>hs. own_prop v ''hashtags'' = JArr hs \<longrightarrow> hashtags r = JArr (take 6 hs))
       \<and> (\<not> truthy (own_prop v ''beats'') \<longrightarrow> beats r = JArr [])
       \<and> (truthy (own_prop v ''beats'') \<longrightarrow> beats r = own_prop v ''beats'')"
proof -
  from synth_step_inv[OF assms] have
    s: "script_of v = Inr (script r)"
    and b: "beats r = js_or (own_prop v ''beats'') (JArr [])"
    and h: "slice06 e (js_or (own_prop v ''hashtags'') (JArr [])) = Inr (hashtags r)"
    by auto
  from s have "\<exists>t. own_prop v ''voiceover'' = JStr t \<and> script r = trim t"
    by (auto simp: script_of_def get_prop_def split: if_splits jsval.splits)
  moreover from h [symmetric] have "(\<exists>xs. hashtags r = JArr xs \<and> length xs \<le> 6)
          \<or> (\<exists>t. own_prop v ''hashtags'' = JStr t \<and> hashtags r = JStr (str_slice06 e t))"
    by (auto simp: slice06_def js_or_def split: jsval.splits if_splits)
  moreover from h have "\<not> truthy (own_prop v ''hashtags'') \<longrightarrow> hashtags r = JArr []"
    by (auto simp: slice06_def js_or_def)
  moreover from h have "\<forall>hs. own_prop v ''hashtags'' = JArr hs \<longrightarrow> hashtags r = JArr (take 6 hs)"
    by (auto simp: slice06_def js_or_def)
  moreover from b have "\<not> truthy (own_prop v ''beats'') \<longrightarrow> beats r = JArr []"
    by (simp add: js_or_def)
  moreover from b have "truthy (own_prop v ''beats'') \<longrightarrow> beats r = own_prop v ''beats''"
    by (simp add: js_or_def)
  ultimately show ?thesis by blast
qed

section \<open>Facts about the sample installation\<close>

lemma demo_batch_dir:
  "batch_dir demo_config demo_uuid = ''/srv/app/public/voiceovers/1b9d6bcd-bbfd-4b2d-9b5d-ab8dfbbd4bed''"
  by (simp add: batch_dir_def demo_config_def demo_uuid_def path_join_def normalize_def Let_def)

lemma demo_chat: "chat_variants demo_env demo_specs = Inr (JArr demo_variants)"
  by (simp add: chat_variants_def demo_env_def demo_parse_def chat_body_def chat_json_def
      json_quote_def demo_content_def get_prop_def nullish_def)

lemma demo_trims: "trim '' Built to haul. '' = ''Built to haul.''" "trim ''Easy miles.'' = ''Easy miles.''"
  by (simp_all add: trim_def strip_ws.simps ws_head_def ws_seqs_def)

lemma demo_scripts:
  "script_of (demo_variants ! 0) = Inr ''Built to haul.''"
  "script_of (demo_variants ! 1) = Inr ''Easy miles.''"
  by (simp_all add: demo_variants_def script_of_def get_prop_def nullish_def demo_trims)

lemma demo_sliceable: "sliceable (demo_variants ! 0)" "sliceable (demo_variants ! 1)"
  by (simp_all add: demo_variants_def sliceable_def js_or_def)

lemma demo_normal: "normal_dir (server_dir demo_config)" "plain_seg demo_uuid"
  by (simp_all add: normal_dir_def demo_config_def plain_seg_def demo_uuid_def)


lemma vo_names: "vo_name 0 = ''vo_1.mp3''" "vo_name 1 = ''vo_2.mp3''" "vo_name (Suc 0) = ''vo_2.mp3''"
  by (simp_all add: vo_name_def dec.simps digit_def)

lemma demo_specs_ok:
  "get_prop demo_body ''specs'' = Inr demo_specs"
  "truthy (opt_prop demo_specs ''make'')" "truthy (opt_prop demo_specs ''model'')"
  by (simp_all add: demo_body_def demo_specs_def get_prop_def opt_prop_def nullish_def)

lemma demo_turns:
  "\<forall>j<length demo_variants.
      script_of (demo_variants ! j) = Inr ([''Built to haul.'', ''Easy miles.''] ! j) \<and>
      sliceable (demo_variants ! j) \<and>
      tts_succeeds demo_env j ([''Built to haul.'', ''Easy miles.''] ! j)
        (batch_dir demo_config (uuidv4 demo_env) @ ''/'' @ vo_name j)"
proof -
  have "length demo_variants = Suc (Suc 0)" by (simp add: demo_variants_def)
  moreover have "\<And>j t p. tts_succeeds demo_env j t p" by (simp add: tts_succeeds_def demo_env_def)
  ultimately show ?thesis using demo_scripts demo_sliceable by (simp add: All_less_Suc)
qed

lemma flaky_chat: "chat_variants flaky_env demo_specs = Inr (JArr demo_variants)"
  by (simp add: chat_variants_def flaky_env_def demo_env_def demo_parse_def chat_body_def
      chat_json_def json_quote_def demo_content_def get_prop_def nullish_def)

lemma throttled_chat: "chat_variants throttled_env demo_specs = Inl (ChatFailed 429 ''slow down'')"
  by (simp add: chat_variants_def throttled_env_def demo_env_def)

lemma shapeless_chat: "chat_variants shapeless_env demo_specs = Inr JUndefined"
  by (simp add: chat_variants_def shapeless_env_def demo_env_def demo_parse_def chat_body_def
      chat_json_def json_quote_def demo_content_def get_prop_def nullish_def)

lemma demo_ancestors:
  "''/srv/app/public/voiceovers/1b9d6bcd-bbfd-4b2d-9b5d-ab8dfbbd4bed''
     \<in> set (ancestors ''/srv/app/public/voiceovers/1b9d6bcd-bbfd-4b2d-9b5d-ab8dfbbd4bed'')"
  by (simp add: ancestors_def Let_def upt_rec)

lemma demo_run:
  "\<exists>out w'. generate demo_config demo_env demo_body demo_world = (Json 200 out, w')"
proof -
  have u: "uuidv4 demo_env = demo_uuid" by (simp add: demo_env_def)
  have n: "normal_dir (server_dir demo_config)" "plain_seg (uuidv4 demo_env)"
    "\<not> mkdir_fails demo_env (batch_dir demo_config (uuidv4 demo_env))"
    using demo_normal u by (simp_all add: demo_env_def)
  from generate_run [OF demo_specs_ok demo_chat demo_turns n, of demo_world]
  show ?thesis by blast
qed

section \<open>Validation of the request to /generate\<close>

text \<open>
  C3. When \<open>make\<close> or \<open>model\<close> is missing from the specs, generate answers 400 with the
  error body and leaves the world as it was: no request to the chat or the speech
  endpoint is logged, no directory and no file is created.
\<close>

theorem generate_rejects_missing_fields:
  assumes "get_prop body ''specs'' = Inr specs"
    and "opt_prop specs ''make'' = JUndefined \<or> opt_prop specs ''model'' = JUndefined"
  shows "generate c e body w =
           (Json 400 (JObj [(''error'', JStr ''Missing required specs: make, model.'')]), w)"
  using assms by (auto simp: generate_def)

theorem generate_rejects_missing_fields_witness:
  "get_prop (JObj [(''specs'', JObj [(''make'', JStr ''Peterbilt'')])]) ''specs''
     = Inr (JObj [(''make'', JStr ''Peterbilt'')])
   \<and> opt_prop (JObj [(''make'', JStr ''Peterbilt'')]) ''model'' = JUndefined
   \<and> generate demo_config demo_env (JObj [(''specs'', JObj [(''make'', JStr ''Peterbilt'')])]) demo_world =
       (Json 400 (JObj [(''error'', JStr ''Missing required specs: make, model.'')]), demo_world)"
proof -
  have h1: "get_prop (JObj [(''specs'', JObj [(''make'', JStr ''Peterbilt'')])]) ''specs''
              = Inr (JObj [(''make'', JStr ''Peterbilt'')])"
    by (simp add: get_prop_def nullish_def)
  have h2: "opt_prop (JObj [(''make'', JStr ''Peterbilt'')]) ''model'' = JUndefined"
    by (simp add: opt_prop_def nullish_def)
  from h2 have h2': "opt_prop (JObj [(''make'', JStr ''Peterbilt'')]) ''make'' = JUndefined
      \<or> opt_prop (JObj [(''make'', JStr ''Peterbilt'')]) ''model'' = JUndefined" by (rule disjI2)
  show ?thesis
    using h1 h2 generate_rejects_missing_fields [OF h1 h2', of demo_config demo_env demo_world]
    by simp
qed

text \<open>
  C10. The check is one of truthiness: a \<open>make\<close> or \<open>model\<close> that is present with a falsy
  value (the empty string, 0, false, null) gets the same 400 answer as a missing one,
  again with the world untouched.
\<close>

theorem generate_presence_is_truthiness:
  assumes "get_prop body ''specs'' = Inr (JObj kvs)"
    and "k = ''make'' \<or> k = ''model''"
    and "map_of kvs k = Some v"
    and "\<not> truthy v"
  shows "generate c e body w =
           (Json 400 (JObj [(''error'', JStr ''Missing required specs: make, model.'')]), w)"
  using assms by (auto simp: generate_def opt_prop_def nullish_def)

theorem generate_presence_is_truthiness_witness:
  "get_prop (JObj [(''specs'', JObj [(''make'', JStr []), (''model'', JStr ''579'')])]) ''specs''
     = Inr (JObj [(''make'', JStr []), (''model'', JStr ''579'')])
   \<and> map_of [(''make'', JStr []), (''model'', JStr ''579'')] ''make'' = Some (JStr [])
   \<and> \<not> truthy (JStr [])
   \<and> generate demo_config demo_env
        (JObj [(''specs'', JObj [(''make'', JStr []), (''model'', JStr ''579'')])]) demo_world =
       (Json 400 (JObj [(''error'', JStr ''Missing required specs: make, model.'')]), demo_world)"
proof -
  have h1: "get_prop (JObj [(''specs'', JObj [(''make'', JStr []), (''model'', JStr ''579'')])]) ''specs''
     = Inr (JObj [(''make'', JStr []), (''model'', JStr ''579'')])"
    by (simp add: get_prop_def nullish_def)
  have h2: "''make'' = ''make'' \<or> ''make'' = ''model''" by simp
  have h3: "map_of [(''make'', JStr []), (''model'', JStr ''579'')] ''make'' = Some (JStr [])" by simp
  have h4: "\<not> truthy (JStr [])" by simp
  show ?thesis
    using h1 h3 h4 generate_presence_is_truthiness [OF h1 h2 h3 h4, of demo_config demo_env demo_world]
    by simp
qed

section \<open>Failure of the chat step\<close>

text \<open>
  C4 (as amended). When the chat step, lines 75 to 87, throws (the request fails, the
  status is not a success, the body is no JSON, \<open>choices[0].message.content\<close> cannot be
  read, or the content is no JSON or is null), generate answers 500 with the error of
  that step, and nothing but the log of the chat request changes: no identifier is
  drawn, no directory and no file is created, no speech request is sent.
\<close>

theorem generate_chat_failure:
  assumes "get_prop body ''specs'' = Inr specs"
    and "truthy (opt_prop specs ''make'')" and "truthy (opt_prop specs ''model'')"
    and "chat_variants e specs = Inl x"
  shows "generate c e body w =
           (Failed ''Generation failed'' x, w\<lparr>upstream_calls := upstream_calls w @ [ChatCall specs]\<rparr>)"
  using assms by (simp add: generate_def Let_def)

theorem generate_chat_failure_witness:
  "chat_variants throttled_env demo_specs = Inl (ChatFailed 429 ''slow down'')
   \<and> generate demo_config throttled_env demo_body demo_world =
       (Failed ''Generation failed'' (ChatFailed 429 ''slow down''),
        demo_world\<lparr>upstream_calls := upstream_calls demo_world @ [ChatCall demo_specs]\<rparr>)"
  using throttled_chat generate_chat_failure [OF demo_specs_ok throttled_chat, of demo_config demo_world]
  by simp

text \<open>
  The claim as written also counts an answer of the wrong shape as a failure of the
  step. The code does not look at the shape there: a content \<open>{}\<close> without \<open>variants\<close>
  passes the step, the batch directory is created, and only then the loop throws.
\<close>

theorem generate_shapeless_answer_counterexample:
  "chat_variants shapeless_env demo_specs = Inr JUndefined
   \<and> fst (generate demo_config shapeless_env demo_body demo_world) = Failed ''Generation failed'' TypeError
   \<and> ''/srv/app/public/voiceovers/1b9d6bcd-bbfd-4b2d-9b5d-ab8dfbbd4bed''
        \<in> fs_dirs (snd (generate demo_config shapeless_env demo_body demo_world))
   \<and> ''/srv/app/public/voiceovers/1b9d6bcd-bbfd-4b2d-9b5d-ab8dfbbd4bed'' \<notin> fs_dirs demo_world"
proof -
  have u: "uuidv4 shapeless_env = demo_uuid" "\<And>p. \<not> mkdir_fails shapeless_env p"
    by (simp_all add: shapeless_env_def demo_env_def)
  have ex: "\<not> existsSync (demo_world\<lparr>upstream_calls := upstream_calls demo_world @ [ChatCall demo_specs]\<rparr>)
                ''/srv/app/public/voiceovers/1b9d6bcd-bbfd-4b2d-9b5d-ab8dfbbd4bed''"
    by (simp add: existsSync_def demo_world_def)
  have gen: "generate demo_config shapeless_env demo_body demo_world =
      (Failed ''Generation failed'' TypeError,
       demo_world\<lparr>upstream_calls := upstream_calls demo_world @ [ChatCall demo_specs],
                  fs_dirs := fs_dirs demo_world
                    \<union> set (ancestors ''/srv/app/public/voiceovers/1b9d6bcd-bbfd-4b2d-9b5d-ab8dfbbd4bed'')\<rparr>)"
    using demo_specs_ok shapeless_chat ex
    by (simp add: generate_def Let_def u demo_batch_dir ensureDir_def)
  have "''/srv/app/public/voiceovers/1b9d6bcd-bbfd-4b2d-9b5d-ab8dfbbd4bed'' \<notin> fs_dirs demo_world"
    by (simp add: demo_world_def)
  with gen shapeless_chat demo_ancestors show ?thesis by simp
qed

section \<open>The batch that generate produces\<close>



text \<open>
  C8. In every entry of the \<open>files\<close> array of a 200 answer of generate: the \<open>script\<close>
  field is the trimmed voiceover text of its variant; the \<open>hashtags\<close> field is a list
  of at most six elements, the empty list when the variant has none (or a falsy value)
  and the first six of the variant's list when it has one (a variant whose hashtags
  are a string gets the first six code units of that string); the \<open>beats\<close> field is
  the empty list when the variant has none (or a falsy value) and the variant's beats
  otherwise.
\<close>

theorem generate_entry_fields:
  assumes "generate c e body w = (Json 200 out, w')"
  shows "\<exists>es vs specs variants.
           get_prop body ''specs'' = Inr specs \<and> chat_variants e specs = Inr variants \<and>
           loop_items e variants = Inr vs \<and>
           out = JObj [(''batchId'', JStr (uuidv4 e)), (''files'', JArr es)] \<and>
           length es = length vs \<and>
           (\<forall>j<length vs.
              (\<exists>t. own_prop (vs ! j) ''voiceover'' = JStr t
                  \<and> own_prop (es ! j) ''script'' = JStr (trim t))
              \<and> ((\<exists>xs. own_prop (es ! j) ''hashtags'' = JArr xs \<and> length xs \<le> 6)
                 \<or> (\<exists>t. own_prop (vs ! j) ''hashtags'' = JStr t
                       \<and> own_prop (es ! j) ''hashtags'' = JStr (str_slice06 e t)))
              \<and> (\<not> truthy (own_prop (vs ! j) ''hashtags'')
                   \<longrightarrow> own_prop (es ! j) ''hashtags'' = JArr [])
              \<and> (\<forall>hs. own_prop (vs ! j) ''hashtags'' = JArr hs
                   \<longrightarrow> own_prop (es ! j) ''hashtags'' = JArr (take 6 hs))
              \<and> (\<not> truthy (own_prop (vs ! j) ''beats'')
                   \<longrightarrow> own_prop (es ! j) ''beats'' = JArr [])
              \<and> (truthy (own_prop (vs ! j) ''beats'')
                   \<longrightarrow> own_prop (es ! j) ''beats'' = own_prop (vs ! j) ''beats''))"
proof -
  from generate_200_inv[OF assms] obtain specs variants vs rs w2 where
    a: "get_prop body ''specs'' = Inr specs" "chat_variants e specs = Inr variants"
      "loop_items e variants = Inr vs"
    and loop: "synth_loop c e (batch_dir c (uuidv4 e)) (uuidv4 e) 0 vs [] w2 = (Inr rs, w')"
    and out: "out = JObj [(''batchId'', JStr (uuidv4 e)), (''files'', JArr (map entry_json rs))]"
    by blast
  from synth_loop_inv[OF loop] have len: "length rs = length vs"
    and steps: "\<forall>j<length vs. \<exists>w1 w2.
       synth_step c e (batch_dir c (uuidv4 e)) (uuidv4 e) (0 + j) (vs ! j) w1 = (Inr (rs ! j), w2)"
    by auto
  let ?es = "map entry_json rs"
  have len': "length ?es = length vs" using len by simp
  have "\<forall>j<length vs.
              (\<exists>t. own_prop (vs ! j) ''voiceover'' = JStr t
                  \<and> own_prop (?es ! j) ''script'' = JStr (trim t))
              \<and> ((\<exists>xs. own_prop (?es ! j) ''hashtags'' = JArr xs \<and> length xs \<le> 6)
                 \<or> (\<exists>t. own_prop (vs ! j) ''hashtags'' = JStr t
                       \<and> own_prop (?es ! j) ''hashtags'' = JStr (str_slice06 e t)))
              \<and> (\<not> truthy (own_prop (vs ! j) ''hashtags'')
                   \<longrightarrow> own_prop (?es ! j) ''hashtags'' = JArr [])
              \<and> (\<forall>hs. own_prop (vs ! j) ''hashtags'' = JArr hs
                   \<longrightarrow> own_prop (?es ! j) ''hashtags'' = JArr (take 6 hs))
              \<and> (\<not> truthy (own_prop (vs ! j) ''beats'')
                   \<longrightarrow> own_prop (?es ! j) ''beats'' = JArr [])
              \<and> (truthy (own_prop (vs ! j) ''beats'')
                   \<longrightarrow> own_prop (?es ! j) ''beats'' = own_prop (vs ! j) ''beats'')"
  proof (intro allI impI)
    fix j assume j: "j < length vs"
    with steps obtain w1 w2 where
      "synth_step c e (batch_dir c (uuidv4 e)) (uuidv4 e) (0 + j) (vs ! j) w1 = (Inr (rs ! j), w2)"
      by blast
    from step_fields[OF this] j len show
      "(\<exists>t. own_prop (vs ! j) ''voiceover'' = JStr t
                  \<and> own_prop (?es ! j) ''script'' = JStr (trim t))
              \<and> ((\<exists>xs. own_prop (?es ! j) ''hashtags'' = JArr xs \<and> length xs \<le> 6)
                 \<or> (\<exists>t. own_prop (vs ! j) ''hashtags'' = JStr t
                       \<and> own_prop (?es ! j) ''hashtags'' = JStr (str_slice06 e t)))
              \<and> (\<not> truthy (own_prop (vs ! j) ''hashtags'')
                   \<longrightarrow> own_prop (?es ! j) ''hashtags'' = JArr [])
              \<and> (\<forall>hs. own_prop (vs ! j) ''hashtags'' = JArr hs
                   \<longrightarrow> own_prop (?es ! j) ''hashtags'' = JArr (take 6 hs))
              \<and> (\<not> truthy (own_prop (vs ! j) ''beats'')
                   \<longrightarrow> own_prop (?es ! j) ''beats'' = JArr [])
              \<and> (truthy (own_prop (vs ! j) ''beats'')
                   \<longrightarrow> own_prop (?es ! j) ''beats'' = own_prop (vs ! j) ''beats'')"
      by (simp add: entry_json_fields)
  qed
  with a out len' show ?thesis by blast
qed

theorem generate_entry_fields_witness:
  "\<exists>es w'. generate demo_config demo_env demo_body demo_world =
       (Json 200 (JObj [(''batchId'', JStr demo_uuid), (''files'', JArr es)]), w')
     \<and> length es = 2
     \<and> own_prop (es ! 0) ''script'' = JStr ''Built to haul.''
     \<and> own_prop (es ! 0) ''hashtags''
         = JArr [JStr ''#a'', JStr ''#b'', JStr ''#c'', JStr ''#d'', JStr ''#e'', JStr ''#f'']
     \<and> own_prop (es ! 0) ''beats'' = JArr [JStr ''hook'']
     \<and> own_prop (es ! 1) ''beats'' = JArr []
     \<and> own_prop (es ! 1) ''hashtags'' = JArr []"
proof -
  from demo_run obtain out w' where
    gen: "generate demo_config demo_env demo_body demo_world = (Json 200 out, w')" by blast
  from generate_entry_fields [OF gen] obtain es vs specs variants where
    a: "get_prop demo_body ''specs'' = Inr specs" "chat_variants demo_env specs = Inr variants"
      "loop_items demo_env variants = Inr vs"
    and out: "out = JObj [(''batchId'', JStr (uuidv4 demo_env)), (''files'', JArr es)]"
    and len: "length es = length vs"
    and each: "\<forall>j<length vs.
              (\<exists>t. own_prop (vs ! j) ''voiceover'' = JStr t
                  \<and> own_prop (es ! j) ''script'' = JStr (trim t))
              \<and> ((\<exists>xs. own_prop (es ! j) ''hashtags'' = JArr xs \<and> length xs \<le> 6)
                 \<or> (\<exists>t. own_prop (vs ! j) ''hashtags'' = JStr t
                       \<and> own_prop (es ! j) ''hashtags'' = JStr (str_slice06 demo_env t)))
              \<and> (\<not> truthy (own_prop (vs ! j) ''hashtags'')
                   \<longrightarrow> own_prop (es ! j) ''hashtags'' = JArr [])
              \<and> (\<forall>hs. own_prop (vs ! j) ''hashtags'' = JArr hs
                   \<longrightarrow> own_prop (es ! j) ''hashtags'' = JArr (take 6 hs))
              \<and> (\<not> truthy (own_prop (vs ! j) ''beats'')
                   \<longrightarrow> own_prop (es ! j) ''beats'' = JArr [])
              \<and> (truthy (own_prop (vs ! j) ''beats'')
                   \<longrightarrow> own_prop (es ! j) ''beats'' = own_prop (vs ! j) ''beats'')"
    by blast
  from a(1) demo_specs_ok(1) have "specs = demo_specs" by simp
  with a(2) demo_chat have "variants = JArr demo_variants" by simp
  with a(3) have vs: "vs = demo_variants" by simp
  have l2: "length demo_variants = 2" by (simp add: demo_variants_def)
  from each vs l2 have e0:
      "\<exists>t. own_prop (demo_variants ! 0) ''voiceover'' = JStr t
           \<and> own_prop (es ! 0) ''script'' = JStr (trim t)"
      "\<forall>hs. own_prop (demo_variants ! 0) ''hashtags'' = JArr hs
           \<longrightarrow> own_prop (es ! 0) ''hashtags'' = JArr (take 6 hs)"
      "truthy (own_prop (demo_variants ! 0) ''beats'')
           \<longrightarrow> own_prop (es ! 0) ''beats'' = own_prop (demo_variants ! 0) ''beats''"
    and e1: "\<not> truthy (own_prop (demo_variants ! 1) ''hashtags'')
           \<longrightarrow> own_prop (es ! 1) ''hashtags'' = JArr []"
      "\<not> truthy (own_prop (demo_variants ! 1) ''beats'')
           \<longrightarrow> own_prop (es ! 1) ''beats'' = JArr []"
    by simp_all
  from e0(1) have s0: "own_prop (es ! 0) ''script'' = JStr ''Built to haul.''"
    by (auto simp: demo_variants_def demo_trims)
  from e0(2) have h0: "own_prop (es ! 0) ''hashtags''
      = JArr [JStr ''#a'', JStr ''#b'', JStr ''#c'', JStr ''#d'', JStr ''#e'', JStr ''#f'']"
    by (simp add: demo_variants_def)
  from e0(3) have b0: "own_prop (es ! 0) ''beats'' = JArr [JStr ''hook'']"
    by (simp add: demo_variants_def)
  from e1 have h1: "own_prop (es ! 1) ''hashtags'' = JArr []" "own_prop (es ! 1) ''beats'' = JArr []"
    by (simp_all add: demo_variants_def)
  show ?thesis
    apply (rule exI [of _ es], rule exI [of _ w'])
    using gen out len vs l2 s0 h0 b0 h1 by (simp add: demo_env_def)
qed

text \<open>
  C5. When the \<open>ttsToMp3\<close> call of the variant at position \<open>i\<close> throws, after the calls
  for the variants before it succeeded, generate answers 500 and no success payload;
  the audio files of the variants before \<open>i\<close> are on disk with what the speech service
  returned, and every path other than the files of the variants up to \<open>i\<close> is as it
  was before the request: nothing is rolled back.
\<close>

theorem generate_fails_when_synthesis_fails:
  fixes s :: "nat \<Rightarrow> string"
  assumes specs: "get_prop body ''specs'' = Inr specs"
      "truthy (opt_prop specs ''make'')" "truthy (opt_prop specs ''model'')"
    and chat: "chat_variants e specs = Inr (JArr vs)"
    and i: "i < length vs"
    and before: "\<forall>j<i. script_of (vs ! j) = Inr (s j) \<and> sliceable (vs ! j) \<and>
        tts_succeeds e j (s j) (batch_dir c (uuidv4 e) @ ''/'' @ vo_name j)"
    and at: "script_of (vs ! i) = Inr (s i)"
      "\<not> tts_succeeds e i (s i) (batch_dir c (uuidv4 e) @ ''/'' @ vo_name i)"
    and dir: "normal_dir (server_dir c)" "plain_seg (uuidv4 e)"
      "\<not> mkdir_fails e (batch_dir c (uuidv4 e))"
  shows "\<exists>x w'. generate c e body w = (Failed ''Generation failed'' x, w')
      \<and> (\<forall>j<i. fs_files w' (batch_dir c (uuidv4 e) @ ''/'' @ vo_name j)
                 = Some (payload (the (tts e j (s j)))))
      \<and> (\<forall>p. (\<forall>j\<le>i. p \<noteq> batch_dir c (uuidv4 e) @ ''/'' @ vo_name j)
               \<longrightarrow> fs_files w' p = fs_files w p)"
proof -
  let ?D = "batch_dir c (uuidv4 e)"
  let ?P = "\<lambda>k. path_join [?D, vo_name k]"
  let ?w1 = "w\<lparr>upstream_calls := upstream_calls w @ [ChatCall specs]\<rparr>"
  let ?pre = "take i vs"
  have P: "\<And>k. ?P k = ?D @ ''/'' @ vo_name k" using vo_path_eq[OF dir(1,2)] .
  have inj: "inj ?P" using vo_path_inj[OF dir(1,2)] .
  from ensureDir_ok[OF dir(3), of ?w1] obtain w2 where
    ens: "ensureDir e ?D ?w1 = Inr w2" and f2: "fs_files w2 = fs_files w"
    by auto
  have lp: "length ?pre = i" using i by simp
  have split: "vs = ?pre @ (vs ! i) # drop (Suc i) vs" using i by (simp add: id_take_nth_drop)
  have turns': "\<forall>j<length ?pre. script_of (?pre ! j) = Inr (s (0 + j)) \<and> sliceable (?pre ! j) \<and>
        tts_succeeds e (0 + j) (s (0 + j)) (?P (0 + j))"
    using before lp by (simp add: P)
  from synth_loop_ok[OF inj turns', of c "uuidv4 e" "[]" w2] obtain rs w3 where
    loop: "synth_loop c e ?D (uuidv4 e) 0 ?pre [] w2 = (Inr rs, w3)"
    and each: "\<forall>j<i. fs_files w3 (?D @ ''/'' @ vo_name j) = Some (payload (the (tts e j (s j))))"
    and other: "\<forall>p. (\<forall>j<i. p \<noteq> ?D @ ''/'' @ vo_name j) \<longrightarrow> fs_files w3 p = fs_files w2 p"
    using lp by (auto simp: P)
  have at': "\<not> tts_succeeds e i (s i) (?P i)" using at(2) by (simp add: P)
  from synth_step_fail[OF at(1) at', of c "uuidv4 e" w3] obtain x where
    step: "synth_step c e ?D (uuidv4 e) i (vs ! i) w3
             = (Inl x, w3\<lparr>upstream_calls := upstream_calls w3 @ [TtsCall (s i)]\<rparr>)" ..
  let ?w4 = "w3\<lparr>upstream_calls := upstream_calls w3 @ [TtsCall (s i)]\<rparr>"
  have "synth_loop c e ?D (uuidv4 e) 0 (?pre @ (vs ! i) # drop (Suc i) vs) [] w2 = (Inl x, ?w4)"
    using loop step lp by (simp add: synth_loop_append)
  with split have "synth_loop c e ?D (uuidv4 e) 0 vs [] w2 = (Inl x, ?w4)" by simp
  then have "generate c e body w = (Failed ''Generation failed'' x, ?w4)"
    using specs chat ens by (simp add: generate_def Let_def)
  moreover have "\<forall>j<i. fs_files ?w4 (?D @ ''/'' @ vo_name j) = Some (payload (the (tts e j (s j))))"
    using each by simp
  moreover have "\<forall>p. (\<forall>j\<le>i. p \<noteq> ?D @ ''/'' @ vo_name j) \<longrightarrow> fs_files ?w4 p = fs_files w p"
    using other f2 by (simp add: less_imp_le)
  ultimately show ?thesis by blast
qed

theorem generate_fails_when_synthesis_fails_witness:
  "\<exists>x w'. generate demo_config flaky_env demo_body demo_world = (Failed ''Generation failed'' x, w')
     \<and> fs_files w' ''/srv/app/public/voiceovers/1b9d6bcd-bbfd-4b2d-9b5d-ab8dfbbd4bed/vo_1.mp3''
         = Some ''mp3:Built to haul.''
     \<and> fs_files w' ''/srv/app/server.js'' = Some ''import express''"
proof -
  let ?s = "\<lambda>j. [''Built to haul.'', ''Easy miles.''] ! j"
  have u: "uuidv4 flaky_env = demo_uuid" by (simp add: flaky_env_def demo_env_def)
  have n: "normal_dir (server_dir demo_config)" "plain_seg (uuidv4 flaky_env)"
    "\<not> mkdir_fails flaky_env (batch_dir demo_config (uuidv4 flaky_env))"
    using demo_normal u by (simp_all add: flaky_env_def demo_env_def)
  have i: "(1::nat) < length demo_variants" by (simp add: demo_variants_def)
  have before: "\<forall>j<(1::nat). script_of (demo_variants ! j) = Inr (?s j) \<and> sliceable (demo_variants ! j) \<and>
        tts_succeeds flaky_env j (?s j) (batch_dir demo_config (uuidv4 flaky_env) @ ''/'' @ vo_name j)"
    using demo_scripts(1) demo_sliceable(1)
    by (simp add: tts_succeeds_def flaky_env_def demo_env_def)
  have at: "script_of (demo_variants ! 1) = Inr (?s 1)"
    "\<not> tts_succeeds flaky_env 1 (?s 1) (batch_dir demo_config (uuidv4 flaky_env) @ ''/'' @ vo_name 1)"
    using demo_scripts(2) by (simp_all add: tts_succeeds_def flaky_env_def)
  from generate_fails_when_synthesis_fails [OF demo_specs_ok flaky_chat i before at n, of demo_world]
  obtain x w' where
    gen: "generate demo_config flaky_env demo_body demo_world = (Failed ''Generation failed'' x, w')"
    and kept: "\<forall>j<(1::nat). fs_files w' (batch_dir demo_config (uuidv4 flaky_env) @ ''/'' @ vo_name j)
                 = Some (payload (the (tts flaky_env j (?s j))))"
    and other: "\<forall>p. (\<forall>j\<le>(1::nat). p \<noteq> batch_dir demo_config (uuidv4 flaky_env) @ ''/'' @ vo_name j)
               \<longrightarrow> fs_files w' p = fs_files demo_world p"
    by blast
  have t0: "payload (the (tts flaky_env 0 ''Built to haul.'')) = ''mp3:Built to haul.''"
    by (simp add: flaky_env_def demo_env_def)
  from kept have k0: "fs_files w' ''/srv/app/public/voiceovers/1b9d6bcd-bbfd-4b2d-9b5d-ab8dfbbd4bed/vo_1.mp3''
         = Some ''mp3:Built to haul.''"
    by (simp add: u demo_batch_dir vo_names t0)
  have "\<forall>j\<le>(1::nat). ''/srv/app/server.js'' \<noteq> batch_dir demo_config (uuidv4 flaky_env) @ ''/'' @ vo_name j"
    by (simp add: u demo_batch_dir)
  with other have "fs_files w' ''/srv/app/server.js'' = fs_files demo_world ''/srv/app/server.js''"
    by blast
  then have k1: "fs_files w' ''/srv/app/server.js'' = Some ''import express''"
    by (simp add: demo_world_def)
  show ?thesis
    apply (rule exI [of _ x], rule exI [of _ w'])
    using gen k0 k1 by simp
qed

section \<open>The archive of POST /zip\<close>

lemma collect_urls:
  "\<forall>u\<in>set us. url_pathname e u \<noteq> None \<Longrightarrow>
   collect c e w us =
     Inr (map (\<lambda>d. (d, basename d))
            (filter (existsSync w) (map (\<lambda>u. path_join [server_dir c, the (url_pathname e u)]) us)))"
  by (induction us) (auto simp: Let_def)

lemma demo_paths:
  "path_join [''/srv/app'', ''/public/voiceovers/1b9d6bcd-bbfd-4b2d-9b5d-ab8dfbbd4bed/vo_1.mp3'']
     = ''/srv/app/public/voiceovers/1b9d6bcd-bbfd-4b2d-9b5d-ab8dfbbd4bed/vo_1.mp3''"
  "path_join [''/srv/app'', ''/public/voiceovers/1b9d6bcd-bbfd-4b2d-9b5d-ab8dfbbd4bed/vo_2.mp3'']
     = ''/srv/app/public/voiceovers/1b9d6bcd-bbfd-4b2d-9b5d-ab8dfbbd4bed/vo_2.mp3''"
  by (simp_all add: path_join_def normalize_def Let_def)

text \<open>
  C7. With an empty \<open>files\<close> list the handler answers 400 with the body
  \<open>{error: "No files selected."}\<close>; the answer is no archive stream.
\<close>

theorem zip_empty_list:
  assumes "own_prop body ''files'' = JArr []"
  shows "zip_handler c e body w = Json 400 (JObj [(''error'', JStr ''No files selected.'')])"
proof -
  from assms have "\<not> nullish body" by (auto simp: nullish_def)
  with assms show ?thesis
    by (simp add: zip_handler_def get_prop_def opt_prop_def nullish_def)
qed

theorem zip_empty_list_witness:
  "own_prop (JObj [(''files'', JArr [])]) ''files'' = JArr []
   \<and> zip_handler demo_config demo_env (JObj [(''files'', JArr [])]) later_world
       = Json 400 (JObj [(''error'', JStr ''No files selected.'')])"
proof -
  have h: "own_prop (JObj [(''files'', JArr [])]) ''files'' = JArr []" by simp
  show ?thesis using h zip_empty_list [OF h, of demo_config demo_env later_world] by simp
qed

text \<open>
  C6. For a non-empty list of URLs the answer is the archive stream with one entry for
  each listed URL, in order, whose path \<open>path.join(__dirname, pathname)\<close> exists on disk;
  the entry is named by the base name of that path. A URL whose path does not exist
  adds nothing and raises no error.
\<close>

theorem zip_entries:
  assumes "own_prop body ''files'' = JArr us" and "us \<noteq> []"
    and "\<forall>u\<in>set us. url_pathname e u \<noteq> None"
  shows "zip_handler c e body w =
           ZipStream (map (\<lambda>d. (d, basename d))
             (filter (existsSync w)
               (map (\<lambda>u. path_join [server_dir c, the (url_pathname e u)]) us)))"
proof -
  from assms(1) have nb: "\<not> nullish body" by (auto simp: nullish_def)
  have "truthy (opt_prop (JArr us) ''length'')"
    using assms(2) by (simp add: opt_prop_def nullish_def)
  with nb assms(1) collect_urls[OF assms(3)] show ?thesis
    by (simp add: zip_handler_def get_prop_def)
qed

text \<open>The batch of the sample run after its second file was deleted: one entry is left.\<close>

theorem zip_entries_witness:
  "own_prop (JObj [(''files'', JArr demo_urls)]) ''files'' = JArr demo_urls
   \<and> demo_urls \<noteq> []
   \<and> list_all (\<lambda>u. url_pathname demo_env u \<noteq> None) demo_urls
   \<and> zip_handler demo_config demo_env (JObj [(''files'', JArr demo_urls)]) later_world =
       ZipStream [(''/srv/app/public/voiceovers/1b9d6bcd-bbfd-4b2d-9b5d-ab8dfbbd4bed/vo_1.mp3'',
                   ''vo_1.mp3'')]"
proof -
  have h1: "own_prop (JObj [(''files'', JArr demo_urls)]) ''files'' = JArr demo_urls" by simp
  have h2: "demo_urls \<noteq> []" by (simp add: demo_urls_def)
  have h3: "\<forall>u\<in>set demo_urls. url_pathname demo_env u \<noteq> None"
    by (simp add: demo_urls_def demo_env_def demo_pathname_def)
  have h3': "list_all (\<lambda>u. url_pathname demo_env u \<noteq> None) demo_urls"
    using h3 by (simp add: list_all_iff)
  have ex: "existsSync later_world ''/srv/app/public/voiceovers/1b9d6bcd-bbfd-4b2d-9b5d-ab8dfbbd4bed/vo_1.mp3''"
    "\<not> existsSync later_world ''/srv/app/public/voiceovers/1b9d6bcd-bbfd-4b2d-9b5d-ab8dfbbd4bed/vo_2.mp3''"
    by (simp_all add: existsSync_def later_world_def)
  have bn: "basename ''/srv/app/public/voiceovers/1b9d6bcd-bbfd-4b2d-9b5d-ab8dfbbd4bed/vo_1.mp3'' = ''vo_1.mp3''"
    by (simp add: basename_def)
  show ?thesis
    using h1 h2 h3' zip_entries [OF h1 h2 h3, of demo_config later_world] ex bn demo_paths
    by (simp add: demo_urls_def demo_env_def demo_pathname_def demo_config_def)
qed

lemma norm_segs_filter:
  "''..'' \<notin> set (filter (\<lambda>s. s \<noteq> [] \<and> s \<noteq> ''.'') xs) \<Longrightarrow>
   norm_segs al xs st = rev st @ filter (\<lambda>s. s \<noteq> [] \<and> s \<noteq> ''.'') xs"
  by (induction xs arbitrary: st) auto

lemma asset_root_eq:
  assumes "normal_dir (server_dir c)"
  shows "asset_root c = CHR ''/'' # join_with ''/'' (dir_segs (server_dir c) @ [''public'', ''voiceovers''])"
  unfolding asset_root_def
  using path_join_plain[OF assms, of "[''public'', ''voiceovers'']"]
  by (simp add: plain_seg_def)

lemma confined_inside:
  assumes nd: "normal_dir (server_dir c)" and cf: "confined p"
  shows "inside (asset_root c) (path_join [server_dir c, p])"
proof -
  let ?fs = "filter (\<lambda>s. s \<noteq> [] \<and> s \<noteq> ''.'') (split_slash p)"
  let ?A = "dir_segs (server_dir c) @ [''public'', ''voiceovers'']"
  from cf have tk: "take 2 ?fs = [''public'', ''voiceovers'']" and nodd: "''..'' \<notin> set ?fs"
    by (simp_all add: confined_def Let_def)
  from tk obtain rest where fs: "?fs = ''public'' # ''voiceovers'' # rest"
    by (cases ?fs; cases "tl ?fs") auto
  have pne: "p \<noteq> []" using fs by auto
  have plA: "list_all plain_seg ?A"
    using normal_dir_segs(1)[OF nd] by (simp add: plain_seg_def)
  have jA: "join_with ''/'' ?A \<noteq> []" by (rule join_plain_nonempty[OF _ plA]) simp
  have root: "asset_root c = CHR ''/'' # join_with ''/'' ?A" by (rule asset_root_eq[OF nd])
  have ns: "norm_segs False (split_slash p) (rev (dir_segs (server_dir c))) = ?A @ rest"
    using norm_segs_filter[OF nodd, of False "rev (dir_segs (server_dir c))"] fs by simp
  show ?thesis
  proof (cases "rest = []")
    case True
    then have "path_join [server_dir c, p]
        = CHR ''/'' # join_with ''/'' ?A @ (if last p = CHR ''/'' then ''/'' else [])"
      using path_join_dir[OF nd pne] ns jA by (simp add: Let_def)
    then show ?thesis using root by (auto simp: inside_def)
  next
    case False
    then have j: "join_with ''/'' (?A @ rest) = join_with ''/'' ?A @ ''/'' @ join_with ''/'' rest"
      by (intro join_with_append) simp_all
    then have "join_with ''/'' (?A @ rest) \<noteq> []" using jA by simp
    then have "path_join [server_dir c, p]
        = CHR ''/'' # join_with ''/'' (?A @ rest) @ (if last p = CHR ''/'' then ''/'' else [])"
      using path_join_dir[OF nd pne] ns by (simp add: Let_def)
    then have "path_join [server_dir c, p]
        = (asset_root c @ ''/'') @ join_with ''/'' rest @ (if last p = CHR ''/'' then ''/'' else [])"
      using j root by simp
    then show ?thesis unfolding inside_def by (metis prefixI)
  qed
qed

lemma collect_inv:
  "collect c e w us = Inr es \<Longrightarrow> (d, n) \<in> set es \<Longrightarrow>
   \<exists>u p. u \<in> set us \<and> url_pathname e u = Some p \<and> d = path_join [server_dir c, p] \<and>
         n = basename d \<and> existsSync w d"
proof (induction us arbitrary: es)
  case Nil
  then show ?case by simp
next
  case (Cons u us)
  from Cons.prems(1) obtain p rest where
    p: "url_pathname e u = Some p" and rest: "collect c e w us = Inr rest"
    and es: "es = (if existsSync w (path_join [server_dir c, p])
                   then (path_join [server_dir c, p], basename (path_join [server_dir c, p])) # rest
                   else rest)"
    by (auto simp: Let_def split: option.splits sum.splits)
  show ?case
  proof (cases "(d, n) \<in> set rest")
    case True
    from Cons.IH[OF rest True] show ?thesis by auto
  next
    case False
    with Cons.prems(2) es have "existsSync w (path_join [server_dir c, p])"
      and "d = path_join [server_dir c, p]" and "n = basename d"
      by (auto split: if_splits)
    with p show ?thesis by auto
  qed
qed

lemma demo_zip:
  "zip_handler demo_config demo_env (JObj [(''files'', JArr demo_urls)]) later_world =
     ZipStream [(''/srv/app/public/voiceovers/1b9d6bcd-bbfd-4b2d-9b5d-ab8dfbbd4bed/vo_1.mp3'',
                 ''vo_1.mp3'')]"
proof -
  have ex: "existsSync later_world ''/srv/app/public/voiceovers/1b9d6bcd-bbfd-4b2d-9b5d-ab8dfbbd4bed/vo_1.mp3''"
    "\<not> existsSync later_world ''/srv/app/public/voiceovers/1b9d6bcd-bbfd-4b2d-9b5d-ab8dfbbd4bed/vo_2.mp3''"
    by (simp_all add: existsSync_def later_world_def)
  have bn: "basename ''/srv/app/public/voiceovers/1b9d6bcd-bbfd-4b2d-9b5d-ab8dfbbd4bed/vo_1.mp3'' = ''vo_1.mp3''"
    by (simp add: basename_def)
  show ?thesis
    using ex bn demo_paths
    by (simp add: zip_handler_def get_prop_def opt_prop_def nullish_def demo_urls_def demo_env_def
        demo_pathname_def demo_config_def Let_def)
qed

lemma demo_asset_root: "asset_root demo_config = ''/srv/app/public/voiceovers''"
  by (simp add: asset_root_def demo_config_def path_join_def normalize_def Let_def)

text \<open>
  C2 (as amended). Every entry of the archive is the file at
  \<open>path.join(__dirname, pathname)\<close> for the path name of a listed URL, taken at face
  value, and that file exists. When the path name lies under \<open>/public/voiceovers\<close> and
  has no \<open>..\<close> segment the file is inside the asset store root. The handler has no
  check that rejects or ignores other URLs.
\<close>

theorem zip_resolves_at_face_value:
  assumes "zip_handler c e body w = ZipStream es" and "(d, n) \<in> set es"
    and "normal_dir (server_dir c)"
  shows "\<exists>fl us u p. get_prop body ''files'' = Inr fl \<and> iter_values fl = Inr us \<and> u \<in> set us \<and>
           url_pathname e u = Some p \<and> d = path_join [server_dir c, p] \<and> n = basename d \<and>
           existsSync w d \<and> (confined p \<longrightarrow> inside (asset_root c) d)"
proof -
  from assms(1) obtain fl us where
    fl: "get_prop body ''files'' = Inr fl" and us: "iter_values fl = Inr us"
    and col: "collect c e w us = Inr es"
    by (auto simp: zip_handler_def split: sum.splits if_splits)
  from collect_inv[OF col assms(2)] obtain u p where
    u: "u \<in> set us" "url_pathname e u = Some p" "d = path_join [server_dir c, p]"
      "n = basename d" "existsSync w d"
    by blast
  have "confined p \<longrightarrow> inside (asset_root c) d"
    using confined_inside[OF assms(3)] u(3) by simp
  with fl us u show ?thesis by blast
qed

theorem zip_resolves_at_face_value_witness:
  "zip_handler demo_config demo_env (JObj [(''files'', JArr demo_urls)]) later_world =
     ZipStream [(''/srv/app/public/voiceovers/1b9d6bcd-bbfd-4b2d-9b5d-ab8dfbbd4bed/vo_1.mp3'',
                 ''vo_1.mp3'')]
   \<and> normal_dir (server_dir demo_config)
   \<and> confined ''/public/voiceovers/1b9d6bcd-bbfd-4b2d-9b5d-ab8dfbbd4bed/vo_1.mp3''
   \<and> inside ''/srv/app/public/voiceovers''
        ''/srv/app/public/voiceovers/1b9d6bcd-bbfd-4b2d-9b5d-ab8dfbbd4bed/vo_1.mp3''"
proof -
  let ?d = "''/srv/app/public/voiceovers/1b9d6bcd-bbfd-4b2d-9b5d-ab8dfbbd4bed/vo_1.mp3''"
  let ?p1 = "''/public/voiceovers/1b9d6bcd-bbfd-4b2d-9b5d-ab8dfbbd4bed/vo_1.mp3''"
  have m: "(?d, ''vo_1.mp3'') \<in> set [(?d, ''vo_1.mp3'')]" by simp
  have cf: "confined ?p1" by (simp add: confined_def Let_def)
  from zip_resolves_at_face_value [OF demo_zip m demo_normal(1)]
  obtain fl us u p where
    fl: "get_prop (JObj [(''files'', JArr demo_urls)]) ''files'' = Inr fl"
    and us: "iter_values fl = Inr us" and u: "u \<in> set us"
    and p: "url_pathname demo_env u = Some p" and d: "?d = path_join [server_dir demo_config, p]"
    and ins: "confined p \<longrightarrow> inside (asset_root demo_config) ?d"
    by blast
  from fl have "fl = JArr demo_urls" by (simp add: get_prop_def nullish_def)
  with us have "us = demo_urls" by simp
  with u p d have "p = ?p1"
    using demo_paths by (auto simp: demo_urls_def demo_env_def demo_pathname_def demo_config_def)
  with ins cf have "inside (asset_root demo_config) ?d" by simp
  with demo_zip demo_normal(1) cf show ?thesis by (simp add: demo_asset_root)
qed

text \<open>
  The claim as written fails: a URL whose path names server.js itself, with no traversal
  segment at all, puts that file, which is outside the asset store root, into the archive.
\<close>

theorem zip_reads_outside_asset_root_counterexample:
  "zip_handler demo_config demo_env (JObj [(''files'', JArr [JStr ''http://localhost:3000/server.js''])])
      demo_world = ZipStream [(''/srv/app/server.js'', ''server.js'')]
   \<and> asset_root demo_config = ''/srv/app/public/voiceovers''
   \<and> \<not> inside (asset_root demo_config) ''/srv/app/server.js''"
proof -
  have pj: "path_join [''/srv/app'', ''/server.js''] = ''/srv/app/server.js''"
    by (simp add: path_join_def normalize_def Let_def)
  have ex: "existsSync demo_world ''/srv/app/server.js''"
    by (simp add: existsSync_def demo_world_def)
  have bn: "basename ''/srv/app/server.js'' = ''server.js''" by (simp add: basename_def)
  have "zip_handler demo_config demo_env (JObj [(''files'', JArr [JStr ''http://localhost:3000/server.js''])])
      demo_world = ZipStream [(''/srv/app/server.js'', ''server.js'')]"
    using pj ex bn
    by (simp add: zip_handler_def get_prop_def opt_prop_def nullish_def demo_env_def
        demo_pathname_def demo_config_def Let_def)
  moreover have "\<not> inside ''/srv/app/public/voiceovers'' ''/srv/app/server.js''"
    by (simp add: inside_def)
  ultimately show ?thesis by (simp add: demo_asset_root)
qed

section \<open>The key check and the routes\<close>

lemma route_not_public: "route_is ''/health'' p \<Longrightarrow> \<not> under_mount ''/public'' p"
  by (auto simp: route_is_def under_mount_def Let_def)

lemma route_distinct:
  "route_is ''/generate'' p \<Longrightarrow> \<not> route_is ''/health'' p"
  "route_is ''/zip'' p \<Longrightarrow> \<not> route_is ''/health'' p"
  "route_is ''/zip'' p \<Longrightarrow> \<not> route_is ''/generate'' p"
  by (auto simp: route_is_def Let_def)

lemma demo_routes:
  "route_is ''/generate'' ''/generate''" "route_is ''/zip'' ''/zip''" "route_is ''/health'' ''/health''"
  by (simp_all add: route_is_def lower_def Let_def)

text \<open>
  C9 (as amended). For a request whose body \<open>express.json()\<close> accepted: with a secret
  configured, a POST to /generate or /zip whose X-APP-KEY header is missing or wrong is
  answered 401 with \<open>{error: 'Unauthorized'}\<close> and the world is untouched, so no handler
  ran; GET /health is answered 200 with \<open>{ok: true}\<close> whatever the key; with no secret
  configured, or with the right key, a POST to /generate or /zip is answered by its
  handler.
\<close>

theorem app_key_check:
  assumes "req_body req = Accepted body"
  shows "(APP_KEY c \<noteq> [] \<and> x_app_key req \<noteq> Some (APP_KEY c) \<and> req_method req = POST \<and>
            (route_is ''/generate'' (req_path req) \<or> route_is ''/zip'' (req_path req))
          \<longrightarrow> app c e req w = (Json 401 (JObj [(''error'', JStr ''Unauthorized'')]), w))
       \<and> (req_method req = GET \<and> route_is ''/health'' (req_path req)
          \<longrightarrow> app c e req w = (Json 200 (JObj [(''ok'', JBool True)]), w))
       \<and> ((APP_KEY c = [] \<or> x_app_key req = Some (APP_KEY c)) \<and> req_method req = POST \<and>
            route_is ''/generate'' (req_path req)
          \<longrightarrow> app c e req w = generate c e body w)
       \<and> ((APP_KEY c = [] \<or> x_app_key req = Some (APP_KEY c)) \<and> req_method req = POST \<and>
            route_is ''/zip'' (req_path req)
          \<longrightarrow> app c e req w = (zip_handler c e body w, w))"
  using assms route_not_public[of "req_path req"] route_distinct[of "req_path req"]
  by (auto simp: app_def is_get_def)

theorem app_key_check_witness:
  "app demo_config demo_env keyless_generate demo_world
     = (Json 401 (JObj [(''error'', JStr ''Unauthorized'')]), demo_world)
   \<and> app demo_config demo_env keyless_zip later_world
     = (Json 401 (JObj [(''error'', JStr ''Unauthorized'')]), later_world)
   \<and> app demo_config demo_env health_check demo_world
     = (Json 200 (JObj [(''ok'', JBool True)]), demo_world)
   \<and> app open_config demo_env keyless_zip later_world
     = (Json 400 (JObj [(''error'', JStr ''No files selected.'')]), later_world)"
proof -
  have b1: "req_body keyless_generate = Accepted demo_body" by (simp add: keyless_generate_def)
  have b2: "req_body keyless_zip = Accepted (JObj [(''files'', JArr [])])" by (simp add: keyless_zip_def)
  have b3: "req_body health_check = Accepted (JObj [])" by (simp add: health_check_def)
  have z: "zip_handler open_config demo_env (JObj [(''files'', JArr [])]) later_world
      = Json 400 (JObj [(''error'', JStr ''No files selected.'')])"
    by (simp add: zip_handler_def get_prop_def opt_prop_def nullish_def)
  show ?thesis
    using app_key_check [OF b1, of demo_config demo_env demo_world]
      app_key_check [OF b2, of demo_config demo_env later_world]
      app_key_check [OF b3, of demo_config demo_env demo_world]
      app_key_check [OF b2, of open_config demo_env later_world]
      demo_routes z
    by (simp add: keyless_generate_def keyless_zip_def health_check_def demo_config_def open_config_def)
qed

text \<open>
  The claim as written fails for a request whose body the JSON parser refuses: the parser
  is installed before the key check and answers with its own error, here 400, not 401.
\<close>

theorem app_parser_before_key_counterexample:
  "APP_KEY demo_config \<noteq> []
   \<and> req_method broken_generate = POST \<and> req_path broken_generate = ''/generate''
   \<and> x_app_key broken_generate = None
   \<and> app demo_config demo_env broken_generate demo_world = (ParserError 400, demo_world)"
  by (simp add: app_def broken_generate_def demo_config_def)

end
